theory Spec2Isabelle
  imports Main "HOL-Library.AList"
begin

section \<open>JavaScript values seen by the card\<close>

text \<open>
  The card \<^verbatim>\<open>health-bridge-card.js\<close> reads a configuration object and the table of entity
  states of the host. Both arrive as plain data, so a value is \<^verbatim>\<open>undefined\<close>, \<^verbatim>\<open>null\<close>, a
  boolean, a string, or a plain object: its own enumerable string-keyed data properties in
  property creation order, with prototype \<^verbatim>\<open>Object.prototype\<close>. Numbers, arrays and functions
  are left out of the value type. A string is its list of code units.
\<close>

datatype jsval = Undefined | Null | Bool bool | Str string | Obj "(string \<times> jsval) list"

datatype error = TypeError

text \<open>ToBoolean.\<close>

fun truthy :: "jsval \<Rightarrow> bool" where
  "truthy Undefined = False"
| "truthy Null = False"
| "truthy (Bool b) = b"
| "truthy (Str s) = (s \<noteq> [])"
| "truthy (Obj kvs) = True"

text \<open>Reading an own property of a plain object; a missing one reads as \<^verbatim>\<open>undefined\<close>.\<close>

definition get_own :: "(string \<times> jsval) list \<Rightarrow> string \<Rightarrow> jsval" where
  "get_own kvs k = (case map_of kvs k of None \<Rightarrow> Undefined | Some v \<Rightarrow> v)"

text \<open>
  \<^verbatim>\<open>v.k\<close> for the property names the card reads (\<^verbatim>\<open>title\<close>, \<^verbatim>\<open>attributes\<close>,
  \<^verbatim>\<open>friendly_name\<close>, \<^verbatim>\<open>state\<close>, \<^verbatim>\<open>unit_of_measurement\<close>, \<^verbatim>\<open>icon\<close>), none of which is defined
  on \<^verbatim>\<open>Object.prototype\<close>, \<^verbatim>\<open>Boolean.prototype\<close> or \<^verbatim>\<open>String.prototype\<close>: reading from
  \<^verbatim>\<open>undefined\<close> or \<^verbatim>\<open>null\<close> throws, a boolean or a string has no such property.
\<close>

fun get :: "jsval \<Rightarrow> string \<Rightarrow> error + jsval" where
  "get Undefined k = Inl TypeError"
| "get Null k = Inl TypeError"
| "get (Bool b) k = Inr Undefined"
| "get (Str s) k = Inr Undefined"
| "get (Obj kvs) k = Inr (get_own kvs k)"

text \<open>
  \<^verbatim>\<open>v.k = x\<close> in strict code (a class body is strict): creating a property on a primitive
  throws; on an object an existing property keeps its place and a new one goes last.
\<close>

fun put :: "jsval \<Rightarrow> string \<Rightarrow> jsval \<Rightarrow> error + jsval" where
  "put (Obj kvs) k x = Inr (Obj (AList.update k x kvs))"
| "put v k x = Inl TypeError"

text \<open>
  ToString. A plain object answers through \<^verbatim>\<open>Object.prototype.toString\<close> unless an own
  data property \<^verbatim>\<open>toString\<close> shadows it; the shadowing value is not callable, and
  \<^verbatim>\<open>valueOf\<close> (own and not callable, or inherited and returning the object) yields no
  primitive, which is a TypeError.
\<close>

fun ToString :: "jsval \<Rightarrow> error + string" where
  "ToString Undefined = Inr ''undefined''"
| "ToString Null = Inr ''null''"
| "ToString (Bool b) = Inr (if b then ''true'' else ''false'')"
| "ToString (Str s) = Inr s"
| "ToString (Obj kvs) =
     (if map_of kvs ''toString'' = None then Inr ''[object Object]'' else Inl TypeError)"

text \<open>\<^verbatim>\<open>a || b\<close>\<close>

definition or_else :: "jsval \<Rightarrow> jsval \<Rightarrow> jsval" where
  "or_else a b = (if truthy a then a else b)"

text \<open>
  \<^verbatim>\<open>v.includes(c)\<close> for a one-character search string: only a string has the method;
  on any other value of the type the property is missing or not callable.
\<close>

fun includes_str :: "jsval \<Rightarrow> char \<Rightarrow> error + bool" where
  "includes_str (Str s) c = Inr (c \<in> set s)"
| "includes_str v c = Inl TypeError"

definition startsWith :: "string \<Rightarrow> string \<Rightarrow> bool" where
  "startsWith s p = (take (length p) s = p)"

section \<open>Own property keys in enumeration order\<close>

text \<open>
  \<^verbatim>\<open>Object.keys\<close> lists the keys that are array indices (canonical decimal numerals below
  \<open>2^32 - 1\<close>) first, in ascending numeric order, and then the other keys in creation order.
\<close>

definition is_digit :: "char \<Rightarrow> bool" where
  "is_digit c = (48 \<le> (of_char c :: nat) \<and> (of_char c :: nat) \<le> 57)"

definition digits_val :: "string \<Rightarrow> nat" where
  "digits_val s = foldl (\<lambda>n c. 10 * n + ((of_char c :: nat) - 48)) 0 s"

definition is_array_index :: "string \<Rightarrow> bool" where
  "is_array_index s =
     (s \<noteq> [] \<and> list_all is_digit s \<and> (length s = 1 \<or> hd s \<noteq> CHR ''0'') \<and>
      digits_val s < 4294967295)"

definition Object_keys :: "(string \<times> 'a) list \<Rightarrow> string list" where
  "Object_keys kvs =
     sort_key digits_val (filter is_array_index (map fst kvs)) @
     filter (\<lambda>k. \<not> is_array_index k) (map fst kvs)"

section \<open>The two patterns applied to a friendly name\<close>

text \<open>
  \<^verbatim>\<open>/\(([^)]+)\)$/\<close> tried at the start of a string: an opening parenthesis, the longest
  run of characters other than the closing parenthesis (it must not be empty), then a
  closing parenthesis that ends the string. A shorter run is followed by a character that
  is not a closing parenthesis, so backtracking finds nothing more. The result is group 1.
\<close>

fun user_at :: "string \<Rightarrow> string option" where
  "user_at [] = None"
| "user_at (c # cs) =
     (if c = CHR ''('' then
        (let grp = takeWhile (\<lambda>x. x \<noteq> CHR '')'') cs;
             rest = dropWhile (\<lambda>x. x \<noteq> CHR '')'') cs
         in if grp \<noteq> [] \<and> rest = '')'' then Some grp else None)
      else None)"

text \<open>\<^verbatim>\<open>friendlyName.match(/\(([^)]+)\)$/)\<close>: the leftmost start position that matches.\<close>

fun match_user :: "string \<Rightarrow> string option" where
  "match_user [] = None"
| "match_user (c # cs) =
     (case user_at (c # cs) of Some u \<Rightarrow> Some u | None \<Rightarrow> match_user cs)"

text \<open>
  \<^verbatim>\<open>friendlyName.replace(/ \([^)]+\)$/, '')\<close>: the leftmost space that is followed by a
  match of the parenthetical up to the end of the string is cut off with all that follows;
  without a match the string is returned as it is.
\<close>

fun strip_user :: "string \<Rightarrow> string" where
  "strip_user [] = []"
| "strip_user (c # cs) =
     (if c = CHR '' '' \<and> user_at cs \<noteq> None then [] else c # strip_user cs)"

section \<open>Loops that stop at the first exception\<close>

fun filterM :: "('a \<Rightarrow> error + bool) \<Rightarrow> 'a list \<Rightarrow> error + 'a list" where
  "filterM f [] = Inr []"
| "filterM f (x # xs) =
     (case f x of
        Inl e \<Rightarrow> Inl e
      | Inr b \<Rightarrow>
          (case filterM f xs of
             Inl e \<Rightarrow> Inl e
           | Inr ys \<Rightarrow> Inr (if b then x # ys else ys)))"

fun foldM :: "('s \<Rightarrow> 'a \<Rightarrow> error + 's) \<Rightarrow> 'a list \<Rightarrow> 's \<Rightarrow> error + 's" where
  "foldM f [] s = Inr s"
| "foldM f (x # xs) s = (case f s x of Inl e \<Rightarrow> Inl e | Inr s' \<Rightarrow> foldM f xs s')"

fun mapM :: "('a \<Rightarrow> error + 'b) \<Rightarrow> 'a list \<Rightarrow> error + 'b list" where
  "mapM f [] = Inr []"
| "mapM f (x # xs) =
     (case f x of
        Inl e \<Rightarrow> Inl e
      | Inr y \<Rightarrow> (case mapM f xs of Inl e \<Rightarrow> Inl e | Inr ys \<Rightarrow> Inr (y # ys)))"

section \<open>The rendered tree\<close>

text \<open>
  A \<^verbatim>\<open>div\<close> with its class name and child nodes, a text node, or markup assigned to
  \<^verbatim>\<open>innerHTML\<close> and kept as the assigned string.
\<close>

datatype dom = Div string "dom list" | Text string | Html string

text \<open>
  Assigning \<^verbatim>\<open>textContent\<close>: \<^verbatim>\<open>undefined\<close> and \<^verbatim>\<open>null\<close> count as the empty string, any other
  value is converted with ToString; the children become one text node, or none for the
  empty string.
\<close>

definition textContent :: "jsval \<Rightarrow> error + dom list" where
  "textContent v =
     (case v of
        Undefined \<Rightarrow> Inr []
      | Null \<Rightarrow> Inr []
      | _ \<Rightarrow> (case ToString v of Inl e \<Rightarrow> Inl e | Inr s \<Rightarrow> Inr (if s = [] then [] else [Text s])))"

definition placeholder :: dom where
  "placeholder =
     Div ''placeholder''
       [Text ''No health data available. Set up Health Bridge integration and start receiving data.'']"

section \<open>The card\<close>

text \<open>
  \<open>hass\<close> is the \<^verbatim>\<open>states\<close> table of the object last assigned to the \<^verbatim>\<open>hass\<close> property
  (\<open>None\<close> before the first assignment), \<open>config\<close> is \<^verbatim>\<open>this.config\<close> (\<^verbatim>\<open>undefined\<close> at
  first), \<open>content\<close> holds the children of the \<^verbatim>\<open>card-content\<close> element once it exists and
  \<open>styles\<close> counts the style elements appended to the shadow root.
\<close>

type_synonym snapshot = "(string \<times> jsval) list"

record HealthBridgeCard =
  hass :: "snapshot option"
  config :: jsval
  content :: "dom list option"
  styles :: nat

definition new_card :: HealthBridgeCard where
  "new_card = \<lparr>hass = None, config = Undefined, content = None, styles = 0\<rparr>"

text \<open>
  \<^verbatim>\<open>setConfig(config)\<close>. The argument is an object of the caller that the method may write
  to, so the result holds the argument as it is after the call, next to the card.
\<close>

definition setConfig :: "jsval \<Rightarrow> HealthBridgeCard \<Rightarrow> error + (jsval \<times> HealthBridgeCard)" where
  "setConfig cfg w =
     (case get cfg ''title'' of
        Inl e \<Rightarrow> Inl e
      | Inr t \<Rightarrow>
          if \<not> truthy t then
            (case put cfg ''title'' (Str ''Health Bridge'') of
               Inl e \<Rightarrow> Inl e
             | Inr cfg' \<Rightarrow> Inr (cfg', w\<lparr>config := cfg'\<rparr>))
          else Inr (cfg, w\<lparr>config := cfg\<rparr>))"

definition getCardSize :: "HealthBridgeCard \<Rightarrow> nat" where
  "getCardSize w = 3"

text \<open>The first filter of \<^verbatim>\<open>updateCard\<close>, on the entity identifier.\<close>

definition sensor_id :: "string \<Rightarrow> bool" where
  "sensor_id entity_id = (startsWith entity_id ''sensor.'' \<and> CHR ''_'' \<in> set entity_id)"

text \<open>
  The second filter:
  \<^verbatim>\<open>state && state.attributes && state.attributes.friendly_name && friendly_name.includes('(')\<close>
\<close>

definition has_friendly_paren :: "snapshot \<Rightarrow> string \<Rightarrow> error + bool" where
  "has_friendly_paren states entity_id =
     (let state = get_own states entity_id in
      if \<not> truthy state then Inr False
      else
        (case get state ''attributes'' of
           Inl e \<Rightarrow> Inl e
         | Inr attrs \<Rightarrow>
             if \<not> truthy attrs then Inr False
             else
               (case get attrs ''friendly_name'' of
                  Inl e \<Rightarrow> Inl e
                | Inr fname \<Rightarrow>
                    if \<not> truthy fname then Inr False else includes_str fname (CHR ''(''))))"

definition healthBridgeEntities :: "snapshot \<Rightarrow> error + string list" where
  "healthBridgeEntities states =
     filterM (has_friendly_paren states) (filter sensor_id (Object_keys states))"

text \<open>\<^verbatim>\<open>state.attributes.friendly_name\<close> of an entity, as both loops read it.\<close>

definition friendly_name_of :: "snapshot \<Rightarrow> string \<Rightarrow> error + jsval" where
  "friendly_name_of states entity_id =
     (case get (get_own states entity_id) ''attributes'' of
        Inl e \<Rightarrow> Inl e
      | Inr attrs \<Rightarrow> get attrs ''friendly_name'')"

text \<open>
  \<^verbatim>\<open>userEntityMap\<close> starts as \<^verbatim>\<open>{}\<close>, so a key that is not an own property is looked up on
  \<^verbatim>\<open>Object.prototype\<close>. Each name below is found there with a function or an object as
  value: truthy, and without a \<^verbatim>\<open>push\<close> method.
\<close>

definition Object_prototype_keys :: "string list" where
  "Object_prototype_keys =
     [''constructor'', ''hasOwnProperty'', ''isPrototypeOf'', ''propertyIsEnumerable'',
      ''toLocaleString'', ''toString'', ''valueOf'', ''__proto__'', ''__defineGetter__'',
      ''__defineSetter__'', ''__lookupGetter__'', ''__lookupSetter__'']"

text \<open>
  \<^verbatim>\<open>if (!userEntityMap[userId]) userEntityMap[userId] = []; userEntityMap[userId].push(entity_id)\<close>
\<close>

definition push_entity ::
  "(string \<times> string list) list \<Rightarrow> string \<Rightarrow> string \<Rightarrow> error + (string \<times> string list) list" where
  "push_entity m userId entity_id =
     (case map_of m userId of
        Some ids \<Rightarrow> Inr (AList.update userId (ids @ [entity_id]) m)
      | None \<Rightarrow>
          if userId \<in> set Object_prototype_keys then Inl TypeError
          else Inr (AList.update userId [entity_id] m))"

text \<open>One round of the grouping loop; only a string has a \<^verbatim>\<open>match\<close> method.\<close>

definition group_step ::
  "snapshot \<Rightarrow> (string \<times> string list) list \<Rightarrow> string \<Rightarrow> error + (string \<times> string list) list" where
  "group_step states m entity_id =
     (case friendly_name_of states entity_id of
        Inl e \<Rightarrow> Inl e
      | Inr (Str friendlyName) \<Rightarrow>
          (case match_user friendlyName of
             None \<Rightarrow> Inr m
           | Some userId \<Rightarrow> push_entity m userId entity_id)
      | Inr _ \<Rightarrow> Inl TypeError)"

definition userEntityMap :: "snapshot \<Rightarrow> string list \<Rightarrow> error + (string \<times> string list) list" where
  "userEntityMap states entities = foldM (group_step states) entities []"

text \<open>
  The elements of one card, from \<^verbatim>\<open>document.createElement\<close> on: the icon markup
  assigned to \<^verbatim>\<open>innerHTML\<close> (the icon between double quotes, character \<open>0x22\<close>), the
  value, the metric name and, for a truthy unit only, the unit.
\<close>

definition card_elements :: "jsval \<Rightarrow> jsval \<Rightarrow> string \<Rightarrow> jsval \<Rightarrow> error + dom" where
  "card_elements icon val metricName unit =
     (case ToString icon of
        Inl e \<Rightarrow> Inl e
      | Inr icon_text \<Rightarrow>
          (case textContent val of
             Inl e \<Rightarrow> Inl e
           | Inr value_nodes \<Rightarrow>
               (case textContent (Str metricName) of
                  Inl e \<Rightarrow> Inl e
                | Inr name_nodes \<Rightarrow>
                    (case (if truthy unit then textContent unit else Inr []) of
                       Inl e \<Rightarrow> Inl e
                     | Inr unit_nodes \<Rightarrow>
                         Inr (Div ''metric-card''
                                ([Div ''metric-icon'' [Html (''<ha-icon icon='' @ [CHR 0x22] @ icon_text @ [CHR 0x22] @ ''></ha-icon>'')],
                                  Div ''metric-value'' value_nodes,
                                  Div ''metric-name'' name_nodes] @
                                 (if truthy unit then [Div ''metric-unit'' unit_nodes] else [])))))))"

text \<open>
  The body of the inner loop: the card of one entity. Only a string has a \<^verbatim>\<open>replace\<close>
  method.
\<close>

definition metric_card :: "snapshot \<Rightarrow> string \<Rightarrow> error + dom" where
  "metric_card states entity_id =
     (let state = get_own states entity_id in
      case friendly_name_of states entity_id of
        Inl e \<Rightarrow> Inl e
      | Inr fname \<Rightarrow>
          (case get state ''state'' of
             Inl e \<Rightarrow> Inl e
           | Inr val \<Rightarrow>
               (case get state ''attributes'' of
                  Inl e \<Rightarrow> Inl e
                | Inr attrs \<Rightarrow>
                    (case get attrs ''unit_of_measurement'' of
                       Inl e \<Rightarrow> Inl e
                     | Inr u \<Rightarrow>
                         (case get attrs ''icon'' of
                            Inl e \<Rightarrow> Inl e
                          | Inr i \<Rightarrow>
                              (case fname of
                                 Str friendlyName \<Rightarrow>
                                   card_elements (or_else i (Str ''mdi:help-circle'')) val
                                     (strip_user friendlyName) (or_else u (Str []))
                               | _ \<Rightarrow> Inl TypeError))))))"

text \<open>The section of one user; \<open>ids\<close> is \<^verbatim>\<open>userEntityMap[userId]\<close>.\<close>

definition user_section :: "snapshot \<Rightarrow> string \<Rightarrow> string list \<Rightarrow> error + dom" where
  "user_section states userId ids =
     (case mapM (metric_card states) ids of
        Inl e \<Rightarrow> Inl e
      | Inr cards \<Rightarrow>
          Inr (Div ''user-section''
                 [Div ''user-header'' [Text (''User: '' @ userId)],
                  Div ''metrics-grid'' cards]))"

definition ids_of :: "(string \<times> string list) list \<Rightarrow> string \<Rightarrow> string list" where
  "ids_of m userId = (case map_of m userId of None \<Rightarrow> [] | Some ids \<Rightarrow> ids)"

text \<open>
  The outer loop: a finished section is appended to the content; an exception leaves the
  sections appended so far.
\<close>

fun append_sections ::
  "snapshot \<Rightarrow> (string \<times> string list) list \<Rightarrow> string list \<Rightarrow> dom list \<Rightarrow> error option \<times> dom list" where
  "append_sections states m [] cont = (None, cont)"
| "append_sections states m (userId # rest) cont =
     (case user_section states userId (ids_of m userId) of
        Inl e \<Rightarrow> (Some e, cont)
      | Inr sec \<Rightarrow> append_sections states m rest (cont @ [sec]))"

text \<open>
  The part of \<^verbatim>\<open>updateCard\<close> after the content has been emptied: the exception raised,
  if any, and the children of the content element when the method is left.
\<close>

definition render_content :: "jsval \<Rightarrow> snapshot \<Rightarrow> error option \<times> dom list" where
  "render_content cfg states =
     (case get cfg ''title'' of
        Inl e \<Rightarrow> (Some e, [])
      | Inr title \<Rightarrow>
          (case textContent title of
             Inl e \<Rightarrow> (Some e, [])
           | Inr title_nodes \<Rightarrow>
               (let header = Div ''header'' title_nodes in
                case healthBridgeEntities states of
                  Inl e \<Rightarrow> (Some e, [header])
                | Inr entities \<Rightarrow>
                    if entities = [] then (None, [header, placeholder])
                    else
                      (case userEntityMap states entities of
                         Inl e \<Rightarrow> (Some e, [header])
                       | Inr m \<Rightarrow> append_sections states m (Object_keys m) [header]))))"

text \<open>
  \<^verbatim>\<open>updateCard()\<close>: the exception raised, if any, and the card as the call leaves it.
  Without a content element the first assignment to it throws.
\<close>

definition updateCard :: "HealthBridgeCard \<Rightarrow> error option \<times> HealthBridgeCard" where
  "updateCard w =
     (case hass w of
        None \<Rightarrow> (None, w)
      | Some states \<Rightarrow>
          if \<not> truthy (config w) then (None, w)
          else
            (case content w of
               None \<Rightarrow> (Some TypeError, w)
             | Some old \<Rightarrow>
                 (case render_content (config w) states of
                    (r, cont) \<Rightarrow> (r, w\<lparr>content := Some cont\<rparr>))))"

text \<open>The setter \<^verbatim>\<open>set hass(hass)\<close>, called with an object whose \<^verbatim>\<open>states\<close> is the table.\<close>

definition set_hass :: "snapshot \<Rightarrow> HealthBridgeCard \<Rightarrow> error option \<times> HealthBridgeCard" where
  "set_hass states w =
     (let w1 = w\<lparr>hass := Some states\<rparr>;
          w2 = (if content w1 = None then w1\<lparr>content := Some [], styles := styles w1 + 1\<rparr> else w1)
      in updateCard w2)"

section \<open>Notions used to state the properties\<close>

text \<open>
  Every opening parenthesis of the text is followed, later in the text, by a closing one.
\<close>

fun parens_closed :: "string \<Rightarrow> bool" where
  "parens_closed [] = True"
| "parens_closed (c # cs) = ((c \<noteq> CHR ''('' \<or> CHR '')'' \<in> set cs) \<and> parens_closed cs)"

text \<open>
  A friendly name ends in a parenthetical: an opening parenthesis, at least one character,
  none of them a closing parenthesis, and a closing parenthesis at the very end.
\<close>

definition ends_in_parenthetical :: "string \<Rightarrow> bool" where
  "ends_in_parenthetical s =
     (\<exists>pre body. s = pre @ ''('' @ body @ '')'' \<and> body \<noteq> [] \<and> CHR '')'' \<notin> set body)"

text \<open>The grouping key the grouping loop extracts for an entity, if any.\<close>

definition user_of :: "snapshot \<Rightarrow> string \<Rightarrow> string option" where
  "user_of states entity_id =
     (case friendly_name_of states entity_id of
        Inr (Str friendlyName) \<Rightarrow> match_user friendlyName
      | _ \<Rightarrow> None)"

text \<open>The elements of a list in the order of their first occurrence.\<close>

definition first_seen :: "'a list \<Rightarrow> 'a list" where
  "first_seen xs = rev (remdups (rev xs))"

text \<open>The grouping keys of a list of entities, one for each entity that has one.\<close>

definition keys_of :: "snapshot \<Rightarrow> string list \<Rightarrow> string list" where
  "keys_of states entities = concat (map (\<lambda>e. case user_of states e of None \<Rightarrow> [] | Some u \<Rightarrow> [u]) entities)"

text \<open>
  The friendly name the second filter tests for an entity state:
  \<^verbatim>\<open>state.attributes.friendly_name\<close> where \<^verbatim>\<open>state\<close> and \<^verbatim>\<open>state.attributes\<close> are truthy,
  and \<^verbatim>\<open>undefined\<close> where one of them is not.
\<close>

definition friendly_of :: "jsval \<Rightarrow> jsval" where
  "friendly_of st =
     (if \<not> truthy st then Undefined
      else
        (case get st ''attributes'' of
           Inl e \<Rightarrow> Undefined
         | Inr attrs \<Rightarrow>
             if \<not> truthy attrs then Undefined
             else (case get attrs ''friendly_name'' of Inl e \<Rightarrow> Undefined | Inr f \<Rightarrow> f)))"

text \<open>
  The friendly name of an entity state is missing or falsy, or it is a string that does
  not end in a parenthetical. A friendly name that is a truthy value other than a string
  (\<^verbatim>\<open>true\<close>, an object) is left out on purpose: it has no parenthesized suffix either,
  and on it the call of \<^verbatim>\<open>includes\<close> in the second filter throws.
\<close>

definition plain_friendly_name :: "jsval \<Rightarrow> bool" where
  "plain_friendly_name st =
     (case friendly_of st of
        Str s \<Rightarrow> \<not> ends_in_parenthetical s
      | Obj kvs \<Rightarrow> False
      | v \<Rightarrow> \<not> truthy v)"

text \<open>The friendly name of an entity state is a string with an opening parenthesis.\<close>

definition has_open_paren :: "jsval \<Rightarrow> bool" where
  "has_open_paren st = (case friendly_of st of Str s \<Rightarrow> CHR ''('' \<in> set s | _ \<Rightarrow> False)"

text \<open>A value other than an object.\<close>

fun primitive :: "jsval \<Rightarrow> bool" where
  "primitive (Obj kvs) = False"
| "primitive v = True"

text \<open>
  An entity state with partial or missing attributes of the expected kinds: the friendly
  name is missing or falsy, or it is a string; where that string yields a grouping key,
  the key is not the name of a property of \<^verbatim>\<open>Object.prototype\<close>, and the state value, the
  icon and the unit are missing or primitive.
\<close>

definition partial_entity :: "jsval \<Rightarrow> bool" where
  "partial_entity st =
     (case friendly_of st of
        Str s \<Rightarrow>
          (case match_user s of
             None \<Rightarrow> True
           | Some u \<Rightarrow>
               u \<notin> set Object_prototype_keys \<and>
               (case st of
                  Obj kvs \<Rightarrow>
                    primitive (get_own kvs ''state'') \<and>
                    (case get_own kvs ''attributes'' of
                       Obj attrs \<Rightarrow>
                         primitive (get_own attrs ''icon'') \<and>
                         primitive (get_own attrs ''unit_of_measurement'')
                     | _ \<Rightarrow> True)
                | _ \<Rightarrow> True))
      | Obj kvs \<Rightarrow> False
      | v \<Rightarrow> \<not> truthy v)"

text \<open>A sensor entity as the integration publishes it.\<close>

definition sensor :: "string \<Rightarrow> string \<Rightarrow> (string \<times> jsval) list \<Rightarrow> jsval" where
  "sensor friendlyName val others =
     Obj [(''state'', Str val), (''attributes'', Obj ((''friendly_name'', Str friendlyName) # others))]"

definition titled :: "string \<Rightarrow> HealthBridgeCard" where
  "titled t = new_card\<lparr>config := Obj [(''title'', Str t)]\<rparr>"

section \<open>Configuration\<close>

lemma put_title_props:
  "get_own (AList.update k v kvs) k = v"
  "k' \<noteq> k \<Longrightarrow> get_own (AList.update k v kvs) k' = get_own kvs k'"
  by (simp_all add: get_own_def update_conv')

text \<open>
  C6 (as amended). \<^verbatim>\<open>setConfig\<close> called with an object always returns, and the card changes
  in its \<open>config\<close> field only, which holds the caller's object. That object is left as it
  was when its title is truthy; otherwise its \<^verbatim>\<open>title\<close> property is set to the default
  title, and every other property of it reads as before.
\<close>

theorem setConfig_frame:
  "\<exists>kvs'. setConfig (Obj kvs) w = Inr (Obj kvs', w\<lparr>config := Obj kvs'\<rparr>) \<and>
          (truthy (get_own kvs ''title'') \<longrightarrow> kvs' = kvs) \<and>
          (\<not> truthy (get_own kvs ''title'') \<longrightarrow> get_own kvs' ''title'' = Str ''Health Bridge'') \<and>
          (\<forall>k. k \<noteq> ''title'' \<longrightarrow> get_own kvs' k = get_own kvs k)"
proof (cases "truthy (get_own kvs ''title'')")
  case True
  then show ?thesis by (simp add: setConfig_def)
next
  case False
  then have "setConfig (Obj kvs) w =
      Inr (Obj (AList.update ''title'' (Str ''Health Bridge'') kvs),
           w\<lparr>config := Obj (AList.update ''title'' (Str ''Health Bridge'') kvs)\<rparr>)"
    by (simp add: setConfig_def)
  with False show ?thesis
    using put_title_props by blast
qed

theorem setConfig_frame_witness:
  "setConfig (Obj [(''title'', Str ''Pulse'')]) new_card =
     Inr (Obj [(''title'', Str ''Pulse'')], new_card\<lparr>config := Obj [(''title'', Str ''Pulse'')]\<rparr>) \<and>
   (\<exists>kvs'. setConfig (Obj [(''theme'', Str ''dark'')]) new_card = Inr (Obj kvs', new_card\<lparr>config := Obj kvs'\<rparr>) \<and>
      get_own kvs' ''title'' = Str ''Health Bridge'' \<and> get_own kvs' ''theme'' = Str ''dark'')"
proof -
  have t: "truthy (get_own [(''title'', Str ''Pulse'')] ''title'')"
    by (simp add: get_own_def)
  have f: "\<not> truthy (get_own [(''theme'', Str ''dark'')] ''title'')"
    by (simp add: get_own_def)
  have d: "get_own [(''theme'', Str ''dark'')] ''theme'' = Str ''dark''"
    by (simp add: get_own_def)
  have n: "''theme'' \<noteq> ''title''"
    by simp
  from t setConfig_frame [of "[(''title'', Str ''Pulse'')]" new_card]
  have one: "setConfig (Obj [(''title'', Str ''Pulse'')]) new_card =
     Inr (Obj [(''title'', Str ''Pulse'')], new_card\<lparr>config := Obj [(''title'', Str ''Pulse'')]\<rparr>)"
    by auto
  from f d n setConfig_frame [of "[(''theme'', Str ''dark'')]" new_card]
  have two: "\<exists>kvs'. setConfig (Obj [(''theme'', Str ''dark'')]) new_card = Inr (Obj kvs', new_card\<lparr>config := Obj kvs'\<rparr>) \<and>
      get_own kvs' ''title'' = Str ''Health Bridge'' \<and> get_own kvs' ''theme'' = Str ''dark''"
    by metis
  from one two show ?thesis ..
qed

text \<open>
  C6 as stated fails: configuring with the empty object writes a \<^verbatim>\<open>title\<close> property into
  the caller's object.
\<close>

theorem setConfig_mutates_argument:
  "setConfig (Obj []) new_card =
     Inr (Obj [(''title'', Str ''Health Bridge'')],
          new_card\<lparr>config := Obj [(''title'', Str ''Health Bridge'')]\<rparr>) \<and>
   Obj [(''title'', Str ''Health Bridge'')] \<noteq> Obj []"
  by (simp add: setConfig_def get_own_def)

section \<open>Rendering: the header, the placeholder, repeated updates\<close>

lemmas eval_defs = set_hass_def updateCard_def render_content_def healthBridgeEntities_def
  has_friendly_paren_def friendly_name_of_def group_step_def userEntityMap_def push_entity_def
  metric_card_def card_elements_def user_section_def ids_of_def textContent_def get_own_def
  sensor_id_def startsWith_def Object_keys_def is_array_index_def is_digit_def digits_val_def
  or_else_def Object_prototype_keys_def setConfig_def new_card_def sensor_def titled_def
  placeholder_def user_of_def keys_of_def first_seen_def Let_def



lemma set_hass_content:
  assumes "truthy (config w)"
  shows "content (snd (set_hass states w)) = Some (snd (render_content (config w) states))"
  using assms
  by (cases "content w") (simp_all add: set_hass_def updateCard_def Let_def split: prod.splits)

lemma set_hass_error:
  assumes "truthy (config w)"
  shows "fst (set_hass states w) = fst (render_content (config w) states)"
  using assms
  by (cases "content w") (simp_all add: set_hass_def updateCard_def Let_def split: prod.splits)

lemma set_hass_idem: "set_hass states (snd (set_hass states w)) = set_hass states w"
  by (cases "truthy (config w)"; cases "content w")
     (simp_all add: set_hass_def updateCard_def Let_def split: prod.splits)

text \<open>
  C4. Assigning the same snapshot a second time, the configuration being the same, gives
  the same outcome and leaves the card exactly as the first assignment left it; and
  whatever the content element held before an update is discarded, the new content being
  built from the configuration and the snapshot alone.
\<close>

theorem set_hass_idempotent:
  "set_hass states (snd (set_hass states w)) = set_hass states w \<and>
   (truthy (config w) \<longrightarrow>
      content (snd (set_hass states (w\<lparr>content := Some old\<rparr>))) =
        Some (snd (render_content (config w) states)))"
  using set_hass_idem [of states w] set_hass_content [of "w\<lparr>content := Some old\<rparr>" states]
  by simp

theorem set_hass_idempotent_witness:
  "set_hass [(''sensor.alice_steps'', sensor ''Steps (alice)'' ''1200'' [])]
     (snd (set_hass [(''sensor.alice_steps'', sensor ''Steps (alice)'' ''1200'' [])] (titled ''Health''))) =
   set_hass [(''sensor.alice_steps'', sensor ''Steps (alice)'' ''1200'' [])] (titled ''Health'') \<and>
   content (snd (set_hass [(''sensor.alice_steps'', sensor ''Steps (alice)'' ''1200'' [])]
                   ((titled ''Health'')\<lparr>content := Some [placeholder]\<rparr>))) =
     Some [Div ''header'' [Text ''Health''],
           Div ''user-section''
             [Div ''user-header'' [Text ''User: alice''],
              Div ''metrics-grid''
                [Div ''metric-card''
                   [Div ''metric-icon'' [Html (''<ha-icon icon='' @ [CHR 0x22] @ ''mdi:help-circle'' @ [CHR 0x22] @ ''></ha-icon>'')],
                    Div ''metric-value'' [Text ''1200''],
                    Div ''metric-name'' [Text ''Steps'']]]]]"
proof -
  have t: "truthy (config (titled ''Health''))"
    by (simp add: titled_def)
  have r: "snd (render_content (config (titled ''Health''))
                  [(''sensor.alice_steps'', sensor ''Steps (alice)'' ''1200'' [])]) =
     [Div ''header'' [Text ''Health''],
           Div ''user-section''
             [Div ''user-header'' [Text ''User: alice''],
              Div ''metrics-grid''
                [Div ''metric-card''
                   [Div ''metric-icon'' [Html (''<ha-icon icon='' @ [CHR 0x22] @ ''mdi:help-circle'' @ [CHR 0x22] @ ''></ha-icon>'')],
                    Div ''metric-value'' [Text ''1200''],
                    Div ''metric-name'' [Text ''Steps'']]]]]"
    by (simp add: eval_defs)
  from t r set_hass_idempotent
         [of "[(''sensor.alice_steps'', sensor ''Steps (alice)'' ''1200'' [])]" "titled ''Health''"
             "[placeholder]"]
  show ?thesis by simp
qed



section \<open>The patterns\<close>

lemma user_at_Some:
  assumes "user_at s = Some u"
  shows "s = ''('' @ u @ '')'' \<and> u \<noteq> [] \<and> CHR '')'' \<notin> set u"
proof (cases s)
  case Nil
  with assms show ?thesis by simp
next
  case (Cons c cs)
  let ?P = "\<lambda>x. x \<noteq> CHR '')''"
  from assms Cons have c: "c = CHR ''(''" and g: "takeWhile ?P cs \<noteq> []"
    and r: "dropWhile ?P cs = '')''" and u: "u = takeWhile ?P cs"
    by (auto simp: Let_def split: if_splits)
  have "cs = takeWhile ?P cs @ dropWhile ?P cs"
    by simp
  with r u have "cs = u @ '')''"
    by simp
  moreover have "CHR '')'' \<notin> set u"
    unfolding u by (auto dest: set_takeWhileD)
  ultimately show ?thesis
    using c g u Cons by simp
qed

lemma user_at_parenthetical:
  assumes "u \<noteq> []" and "CHR '')'' \<notin> set u"
  shows "user_at (CHR ''('' # u @ '')'') = Some u"
proof -
  let ?P = "\<lambda>x. x \<noteq> CHR '')''"
  from assms(2) have all: "\<And>x. x \<in> set u \<Longrightarrow> ?P x"
    by auto
  have "takeWhile ?P (u @ '')'') = u"
    using all by (simp add: takeWhile_append2)
  moreover have "dropWhile ?P (u @ '')'') = '')''"
    using all by (simp add: dropWhile_append2)
  ultimately show ?thesis
    using assms(1) by (simp add: Let_def)
qed

lemma user_at_closed_paren:
  assumes "CHR '')'' \<in> set cs" and "t \<noteq> []"
  shows "user_at (CHR ''('' # cs @ t) = None"
proof -
  let ?P = "\<lambda>x. x \<noteq> CHR '')''"
  from assms(1) have "dropWhile ?P (cs @ t) = dropWhile ?P cs @ t"
    by (auto simp: dropWhile_append1)
  moreover from assms(1) have "dropWhile ?P cs \<noteq> []"
    by auto
  ultimately have "length (dropWhile ?P (cs @ t)) \<ge> 2"
    using assms(2) by (cases "dropWhile ?P cs"; cases t) simp_all
  then have "dropWhile ?P (cs @ t) \<noteq> '')''"
    by auto
  then show ?thesis
    by (simp add: Let_def)
qed

lemma user_at_after_closed:
  assumes "parens_closed pre" and "t \<noteq> []" and "user_at t = None"
  shows "user_at (pre @ t) = None"
proof (cases pre)
  case Nil
  with assms(3) show ?thesis by simp
next
  case (Cons c cs)
  show ?thesis
  proof (cases "c = CHR ''(''")
    case True
    with assms(1) Cons have "CHR '')'' \<in> set cs"
      by simp
    from user_at_closed_paren [OF this assms(2)] True Cons show ?thesis
      by simp
  next
    case False
    with Cons show ?thesis by simp
  qed
qed

lemma parens_closed_tail: "parens_closed (c # cs) \<Longrightarrow> parens_closed cs"
  by simp

lemma match_user_after_closed:
  assumes "parens_closed pre" and "t \<noteq> []"
  shows "match_user (pre @ t) = match_user t"
  using assms(1)
proof (induction pre)
  case Nil
  show ?case by simp
next
  case (Cons c cs)
  have "user_at (c # cs @ t) = None"
  proof (cases "c = CHR ''(''")
    case True
    with Cons.prems have "CHR '')'' \<in> set cs"
      by simp
    from user_at_closed_paren [OF this assms(2)] True show ?thesis
      by simp
  next
    case False
    then show ?thesis by simp
  qed
  moreover from Cons have "match_user (cs @ t) = match_user t"
    by simp
  ultimately show ?case
    by simp
qed

lemma strip_user_after_closed:
  assumes "parens_closed pre" and "t \<noteq> []" and "user_at t = None"
  shows "strip_user (pre @ t) = pre @ strip_user t"
  using assms(1)
proof (induction pre)
  case Nil
  show ?case by simp
next
  case (Cons c cs)
  from Cons.prems have "parens_closed cs"
    by simp
  from user_at_after_closed [OF this assms(2,3)] Cons.IH [OF \<open>parens_closed cs\<close>]
  show ?case
    by simp
qed

lemma match_user_convention:
  assumes "parens_closed name" and "user \<noteq> []" and "CHR '')'' \<notin> set user"
  shows "match_user (name @ '' ('' @ user @ '')'') = Some user"
proof -
  have "match_user (name @ '' ('' @ user @ '')'') = match_user ('' ('' @ user @ '')'')"
    using match_user_after_closed [OF assms(1), of "'' ('' @ user @ '')''"] by simp
  also have "\<dots> = Some user"
    using user_at_parenthetical [OF assms(2,3)] by simp
  finally show ?thesis .
qed

lemma strip_user_convention:
  assumes "parens_closed name" and "user \<noteq> []" and "CHR '')'' \<notin> set user"
  shows "strip_user (name @ '' ('' @ user @ '')'') = name"
proof -
  have "user_at ('' ('' @ user @ '')'') = None"
    by simp
  from strip_user_after_closed [OF assms(1) _ this]
  have "strip_user (name @ '' ('' @ user @ '')'') = name @ strip_user ('' ('' @ user @ '')'')"
    by simp
  also have "strip_user ('' ('' @ user @ '')'') = []"
    using user_at_parenthetical [OF assms(2,3)] by simp
  finally show ?thesis by simp
qed

lemma match_user_Some:
  "match_user s = Some u \<Longrightarrow>
     \<exists>pre. s = pre @ ''('' @ u @ '')'' \<and> u \<noteq> [] \<and> CHR '')'' \<notin> set u"
proof (induction s)
  case Nil
  then show ?case by simp
next
  case (Cons c cs)
  show ?case
  proof (cases "user_at (c # cs)")
    case None
    with Cons.prems have "match_user cs = Some u"
      by simp
    from Cons.IH [OF this] obtain pre
      where "cs = pre @ ''('' @ u @ '')''" and "u \<noteq> []" and "CHR '')'' \<notin> set u"
      by blast
    then have "c # cs = (c # pre) @ ''('' @ u @ '')'' \<and> u \<noteq> [] \<and> CHR '')'' \<notin> set u"
      by simp
    then show ?thesis by blast
  next
    case (Some v)
    with Cons.prems have "v = u"
      by simp
    with Some user_at_Some [of "c # cs" u]
    have "c # cs = [] @ ''('' @ u @ '')'' \<and> u \<noteq> [] \<and> CHR '')'' \<notin> set u"
      by simp
    then show ?thesis by blast
  qed
qed

lemma match_user_prefix: "match_user t \<noteq> None \<Longrightarrow> match_user (pre @ t) \<noteq> None"
  by (induction pre) (auto split: option.splits)

lemma match_user_None_iff: "match_user s = None \<longleftrightarrow> \<not> ends_in_parenthetical s"
proof
  assume n: "match_user s = None"
  show "\<not> ends_in_parenthetical s"
  proof
    assume "ends_in_parenthetical s"
    then obtain pre body
      where s: "s = pre @ ''('' @ body @ '')''" and b: "body \<noteq> []" "CHR '')'' \<notin> set body"
      unfolding ends_in_parenthetical_def by blast
    from user_at_parenthetical [OF b] have "match_user (''('' @ body @ '')'') \<noteq> None"
      by simp
    from match_user_prefix [OF this, of pre] s n show False
      by simp
  qed
next
  assume e: "\<not> ends_in_parenthetical s"
  show "match_user s = None"
  proof (cases "match_user s")
    case None
    then show ?thesis .
  next
    case (Some u)
    from match_user_Some [OF this] e show ?thesis
      unfolding ends_in_parenthetical_def by blast
  qed
qed

lemma match_user_empty_parens:
  assumes "parens_closed pre"
  shows "match_user (pre @ ''()'') = None"
  using match_user_after_closed [OF assms, of "''()''"] by simp

section \<open>The grouping loop\<close>

lemma foldM_snoc:
  "foldM f (xs @ [x]) s = (case foldM f xs s of Inl e \<Rightarrow> Inl e | Inr s' \<Rightarrow> f s' x)"
  by (induction xs arbitrary: s) (auto split: sum.splits)

lemma first_seen_snoc:
  "first_seen (xs @ [x]) = (if x \<in> set xs then first_seen xs else first_seen xs @ [x])"
  by (simp add: first_seen_def)

lemma set_first_seen: "set (first_seen xs) = set xs"
  by (simp add: first_seen_def)

lemma distinct_first_seen: "distinct (first_seen xs)"
  by (simp add: first_seen_def)

lemma keys_of_snoc:
  "keys_of states (es @ [e]) =
     keys_of states es @ (case user_of states e of None \<Rightarrow> [] | Some u \<Rightarrow> [u])"
  by (simp add: keys_of_def)

lemma group_step_Inr:
  assumes "group_step states m e = Inr m'"
  shows "case user_of states e of None \<Rightarrow> m' = m | Some u \<Rightarrow> push_entity m u e = Inr m'"
  using assms
  by (auto simp: group_step_def user_of_def split: sum.splits jsval.splits option.splits)

lemma push_entity_Inr:
  assumes "push_entity m u e = Inr m'"
  shows "m' = AList.update u (ids_of m u @ [e]) m"
    and "u \<in> fst ` set m \<or> u \<notin> set Object_prototype_keys"
  using assms
  by (auto simp: push_entity_def ids_of_def map_of_eq_None_iff split: option.splits if_splits
           dest: map_of_SomeD intro: rev_image_eqI)

lemma ids_of_update:
  "ids_of (AList.update u v m) u' = (if u' = u then v else ids_of m u')"
  by (simp add: ids_of_def update_conv')

lemma keys_update:
  "map fst (AList.update u v m) = (if u \<in> set (map fst m) then map fst m else map fst m @ [u])"
  by (simp add: update_keys)

lemma userEntityMap_groups:
  "userEntityMap states es = Inr m \<Longrightarrow>
     map fst m = first_seen (keys_of states es) \<and>
     (\<forall>u. ids_of m u = filter (\<lambda>e. user_of states e = Some u) es)"
proof (induction es arbitrary: m rule: rev_induct)
  case Nil
  then show ?case
    by (simp add: userEntityMap_def first_seen_def keys_of_def ids_of_def)
next
  case (snoc e es)
  from snoc.prems obtain m0
    where m0: "userEntityMap states es = Inr m0" and step: "group_step states m0 e = Inr m"
    by (auto simp: userEntityMap_def foldM_snoc split: sum.splits)
  from snoc.IH [OF m0]
  have k0: "map fst m0 = first_seen (keys_of states es)"
    and i0: "\<And>u. ids_of m0 u = filter (\<lambda>e. user_of states e = Some u) es"
    by simp_all
  show ?case
  proof (cases "user_of states e")
    case None
    with group_step_Inr [OF step] have "m = m0"
      by simp
    with None k0 i0 show ?thesis
      by (simp add: keys_of_snoc)
  next
    case (Some u)
    with group_step_Inr [OF step] have "push_entity m0 u e = Inr m"
      by simp
    from push_entity_Inr(1) [OF this] have m: "m = AList.update u (ids_of m0 u @ [e]) m0" .
    have "map fst m = first_seen (keys_of states (es @ [e]))"
      using Some k0 by (simp add: m keys_update keys_of_snoc first_seen_snoc set_first_seen)
    moreover have "\<forall>u'. ids_of m u' = filter (\<lambda>e. user_of states e = Some u') (es @ [e])"
      using Some i0 by (auto simp: m ids_of_update)
    ultimately show ?thesis ..
  qed
qed

lemma userEntityMap_no_prototype_key:
  "userEntityMap states es = Inr m \<Longrightarrow> u \<in> set (keys_of states es) \<Longrightarrow>
     u \<notin> set Object_prototype_keys"
proof (induction es arbitrary: m rule: rev_induct)
  case Nil
  then show ?case
    by (simp add: keys_of_def)
next
  case (snoc e es)
  from snoc.prems(1) obtain m0
    where m0: "userEntityMap states es = Inr m0" and step: "group_step states m0 e = Inr m"
    by (auto simp: userEntityMap_def foldM_snoc split: sum.splits)
  show ?case
  proof (cases "u \<in> set (keys_of states es)")
    case True
    from snoc.IH [OF m0 True] show ?thesis .
  next
    case False
    with snoc.prems(2) have ue: "user_of states e = Some u"
      by (auto simp: keys_of_snoc split: option.splits)
    with group_step_Inr [OF step] have "push_entity m0 u e = Inr m"
      by simp
    from push_entity_Inr(2) [OF this] userEntityMap_groups [OF m0] False
    show ?thesis
      by (metis image_set set_first_seen)
  qed
qed

lemma set_Object_keys: "set (Object_keys m) = fst ` set m"
  by (auto simp: Object_keys_def)

lemma distinct_Object_keys: "distinct (map fst m) \<Longrightarrow> distinct (Object_keys m)"
  by (auto simp: Object_keys_def distinct_map_filter)

section \<open>The filters and the section loop\<close>

lemma filterM_Inr: "filterM f xs = Inr ys \<Longrightarrow> ys = filter (\<lambda>x. f x = Inr True) xs"
  by (induction xs arbitrary: ys) (auto split: sum.splits if_splits)

lemma sensor_id_not_index: "sensor_id k \<Longrightarrow> \<not> is_array_index k"
  by (cases k) (auto simp: sensor_id_def startsWith_def is_array_index_def is_digit_def)

lemma sensor_keys: "filter sensor_id (Object_keys states) = filter sensor_id (map fst states)"
proof -
  have "filter sensor_id (sort_key digits_val (filter is_array_index (map fst states))) = []"
    by (auto simp: filter_empty_conv dest: sensor_id_not_index)
  moreover have "filter sensor_id (filter (\<lambda>k. \<not> is_array_index k) (map fst states)) =
      filter sensor_id (map fst states)"
    by (auto simp: sensor_id_not_index intro: filter_cong)
  ultimately show ?thesis
    by (simp add: Object_keys_def)
qed

lemma healthBridgeEntities_Inr:
  assumes "healthBridgeEntities states = Inr es"
  shows "es = filter (\<lambda>e. sensor_id e \<and> has_friendly_paren states e = Inr True) (map fst states)"
proof -
  from assms have "es = filter (\<lambda>e. has_friendly_paren states e = Inr True)
                          (filter sensor_id (Object_keys states))"
    unfolding healthBridgeEntities_def by (rule filterM_Inr)
  then show ?thesis
    by (simp add: sensor_keys conj_commute)
qed

lemma mapM_append:
  "mapM f (xs @ ys) =
     (case mapM f xs of
        Inl e \<Rightarrow> Inl e
      | Inr as \<Rightarrow> (case mapM f ys of Inl e \<Rightarrow> Inl e | Inr bs \<Rightarrow> Inr (as @ bs)))"
  by (induction xs) (auto split: sum.splits)

lemma mapM_split:
  assumes "mapM f (xs @ x # zs) = Inr ys"
  shows "\<exists>as b cs. ys = as @ b # cs \<and> mapM f xs = Inr as \<and> f x = Inr b \<and> mapM f zs = Inr cs"
  using assms by (auto simp: mapM_append split: sum.splits)

lemma append_sections_mapM:
  "mapM (\<lambda>u. user_section states u (ids_of m u)) ks = Inr secs \<Longrightarrow>
     append_sections states m ks cont = (None, cont @ secs)"
  by (induction ks arbitrary: cont secs) (auto split: sum.splits)

lemma append_sections_complete:
  "fst (append_sections states m ks cont) = None \<Longrightarrow>
     \<exists>secs. mapM (\<lambda>u. user_section states u (ids_of m u)) ks = Inr secs"
  by (induction ks arbitrary: cont) (auto split: sum.splits)

text \<open>What a pass that raises nothing has gone through.\<close>

lemma render_content_complete:
  assumes "fst (render_content cfg states) = None"
  obtains title title_nodes es
  where "get cfg ''title'' = Inr title" and "textContent title = Inr title_nodes"
    and "healthBridgeEntities states = Inr es"
    and "es = [] \<Longrightarrow> snd (render_content cfg states) = [Div ''header'' title_nodes, placeholder]"
    and "es \<noteq> [] \<Longrightarrow> \<exists>m secs. userEntityMap states es = Inr m \<and>
           mapM (\<lambda>u. user_section states u (ids_of m u)) (Object_keys m) = Inr secs \<and>
           snd (render_content cfg states) = Div ''header'' title_nodes # secs"
proof -
  from assms obtain title where t: "get cfg ''title'' = Inr title"
    by (cases "get cfg ''title''") (simp_all add: render_content_def)
  from assms t obtain title_nodes where n: "textContent title = Inr title_nodes"
    by (cases "textContent title") (simp_all add: render_content_def)
  from assms t n obtain es where e: "healthBridgeEntities states = Inr es"
    by (cases "healthBridgeEntities states") (simp_all add: render_content_def)
  have empty: "snd (render_content cfg states) = [Div ''header'' title_nodes, placeholder]"
    if "es = []"
    using that t n e by (simp add: render_content_def)
  have groups: "\<exists>m secs. userEntityMap states es = Inr m \<and>
           mapM (\<lambda>u. user_section states u (ids_of m u)) (Object_keys m) = Inr secs \<and>
           snd (render_content cfg states) = Div ''header'' title_nodes # secs"
    if ne: "es \<noteq> []"
  proof -
    from assms t n e ne obtain m where m: "userEntityMap states es = Inr m"
      by (cases "userEntityMap states es") (simp_all add: render_content_def)
    with assms t n e ne
    have "fst (append_sections states m (Object_keys m) [Div ''header'' title_nodes]) = None"
      by (simp add: render_content_def)
    from append_sections_complete [OF this] obtain secs
      where s: "mapM (\<lambda>u. user_section states u (ids_of m u)) (Object_keys m) = Inr secs" ..
    from append_sections_mapM [OF s, of "[Div ''header'' title_nodes]"] t n e ne m
    have "snd (render_content cfg states) = Div ''header'' title_nodes # secs"
      by (simp add: render_content_def)
    with m s show ?thesis by blast
  qed
  from t n e empty groups show thesis
    by (rule that)
qed

section \<open>One card\<close>

lemma textContent_Str: "textContent (Str s) = Inr (if s = [] then [] else [Text s])"
  by (simp add: textContent_def)



section \<open>Grouping keys\<close>

text \<open>
  C10 (as amended). Every key under which the grouping loop files an entity, and so every
  key of a rendered section, is a non-empty string without a closing parenthesis. An
  entity whose friendly name ends in \<^verbatim>\<open>()\<close>, every opening parenthesis before that being
  closed again before it, passes the filter, yields no key and leaves the groups as they
  are.
\<close>

theorem grouping_keys_nonempty:
  "(userEntityMap states es = Inr m \<longrightarrow>
      (\<forall>u \<in> set (Object_keys m). u \<noteq> [] \<and> CHR '')'' \<notin> set u)) \<and>
   (parens_closed pre \<and> friendly_name_of states e = Inr (Str (pre @ ''()'')) \<longrightarrow>
      has_friendly_paren states e = Inr True \<and> user_of states e = None \<and>
      group_step states m e = Inr m)"
proof (intro conjI impI)
  assume g: "userEntityMap states es = Inr m"
  show "\<forall>u \<in> set (Object_keys m). u \<noteq> [] \<and> CHR '')'' \<notin> set u"
  proof
    fix u
    assume "u \<in> set (Object_keys m)"
    then have "u \<in> set (map fst m)"
      by (simp add: set_Object_keys)
    with userEntityMap_groups [OF g] have "u \<in> set (keys_of states es)"
      by (simp add: set_first_seen)
    then obtain e where "user_of states e = Some u"
      by (auto simp: keys_of_def split: option.splits)
    then obtain s where "match_user s = Some u"
      by (auto simp: user_of_def split: sum.splits jsval.splits)
    from match_user_Some [OF this] show "u \<noteq> [] \<and> CHR '')'' \<notin> set u"
      by blast
  qed
next
  assume a: "parens_closed pre \<and> friendly_name_of states e = Inr (Str (pre @ ''()''))"
  then have n: "match_user (pre @ ''()'') = None"
    by (simp add: match_user_empty_parens)
  from a obtain attrs where at: "get (get_own states e) ''attributes'' = Inr attrs"
    and fn: "get attrs ''friendly_name'' = Inr (Str (pre @ ''()''))"
    by (auto simp: friendly_name_of_def split: sum.splits)
  from fn have ta: "truthy attrs"
    by (cases attrs) simp_all
  from at ta have ts: "truthy (get_own states e)"
    by (cases "get_own states e") auto
  from at fn ta ts show "has_friendly_paren states e = Inr True"
    by (simp add: has_friendly_paren_def)
  from a n show "user_of states e = None"
    by (simp add: user_of_def)
  from a n show "group_step states m e = Inr m"
    by (simp add: group_step_def)
qed

theorem grouping_keys_nonempty_witness:
  "userEntityMap [(''sensor.alice_steps'', sensor ''Steps (alice)'' ''1200'' [])]
     [''sensor.alice_steps''] = Inr [(''alice'', [''sensor.alice_steps''])] \<and>
   Object_keys [(''alice'', [''sensor.alice_steps''])] = [''alice''] \<and>
   ''alice'' \<noteq> [] \<and> CHR '')'' \<notin> set ''alice'' \<and>
   has_friendly_paren [(''sensor.a_steps'', sensor ''Steps ()'' ''1200'' [])] ''sensor.a_steps'' = Inr True \<and>
   user_of [(''sensor.a_steps'', sensor ''Steps ()'' ''1200'' [])] ''sensor.a_steps'' = None \<and>
   group_step [(''sensor.a_steps'', sensor ''Steps ()'' ''1200'' [])] [] ''sensor.a_steps'' = Inr []"
proof -
  have a: "userEntityMap [(''sensor.alice_steps'', sensor ''Steps (alice)'' ''1200'' [])]
             [''sensor.alice_steps''] = Inr [(''alice'', [''sensor.alice_steps''])]"
    by (simp add: eval_defs)
  have b: "parens_closed ''Steps '' \<and>
           friendly_name_of [(''sensor.a_steps'', sensor ''Steps ()'' ''1200'' [])] ''sensor.a_steps'' =
             Inr (Str (''Steps '' @ ''()''))"
    by (simp add: eval_defs)
  have k: "Object_keys [(''alice'', [''sensor.alice_steps''])] = [''alice'']"
    by (simp add: eval_defs)
  from a grouping_keys_nonempty
         [where states = "[(''sensor.alice_steps'', sensor ''Steps (alice)'' ''1200'' [])]"
            and es = "[''sensor.alice_steps'']" and m = "[(''alice'', [''sensor.alice_steps''])]"]
  have "\<forall>u \<in> set (Object_keys [(''alice'', [''sensor.alice_steps''])]). u \<noteq> [] \<and> CHR '')'' \<notin> set u"
    by (rule conjunct1 [THEN mp, rotated])
  then have one: "''alice'' \<noteq> [] \<and> CHR '')'' \<notin> set ''alice''"
    unfolding k by simp
  from b grouping_keys_nonempty
         [where pre = "''Steps ''" and e = "''sensor.a_steps''" and m = "[]"
            and states = "[(''sensor.a_steps'', sensor ''Steps ()'' ''1200'' [])]"]
  have two: "has_friendly_paren [(''sensor.a_steps'', sensor ''Steps ()'' ''1200'' [])] ''sensor.a_steps'' = Inr True \<and>
   user_of [(''sensor.a_steps'', sensor ''Steps ()'' ''1200'' [])] ''sensor.a_steps'' = None \<and>
   group_step [(''sensor.a_steps'', sensor ''Steps ()'' ''1200'' [])] [] ''sensor.a_steps'' = Inr []"
    by blast
  from a k one two show ?thesis
    by simp
qed

text \<open>
  C10 as stated fails: the friendly name below ends in \<^verbatim>\<open>()\<close>, and the leftmost match of
  the pattern starts at the earlier parenthesis, so the entity is kept, under the key
  \<^verbatim>\<open>x(\<close>.
\<close>

theorem empty_parens_kept:
  "match_user ''Steps (x()'' = Some ''x('' \<and>
   userEntityMap [(''sensor.a_steps'', sensor ''Steps (x()'' ''1200'' [])] [''sensor.a_steps''] =
     Inr [(''x('', [''sensor.a_steps''])] \<and>
   render_content (Obj [(''title'', Str ''Health'')])
       [(''sensor.a_steps'', sensor ''Steps (x()'' ''1200'' [])] =
     (None,
      [Div ''header'' [Text ''Health''],
       Div ''user-section''
         [Div ''user-header'' [Text ''User: x(''],
          Div ''metrics-grid''
            [Div ''metric-card''
               [Div ''metric-icon'' [Html (''<ha-icon icon='' @ [CHR 0x22] @ ''mdi:help-circle'' @ [CHR 0x22] @ ''></ha-icon>'')],
                Div ''metric-value'' [Text ''1200''],
                Div ''metric-name'' [Text ''Steps'']]]]])"
  by (simp add: eval_defs)

section \<open>The order of sections and cards\<close>

lemma mapM_single: "mapM f [x] = (case f x of Inl e \<Rightarrow> Inl e | Inr y \<Rightarrow> Inr [y])"
  by (simp split: sum.splits)

text \<open>
  C7 (as amended). The entities that pass the filter are taken in the order in which the
  snapshot lists them. In a pass that raises nothing, the section of a key holds the
  cards of the entities with that key in that order, all in one section. The sections
  stand in the order in which \<^verbatim>\<open>Object.keys\<close> lists the keys: first the keys that are array
  indices, in ascending numeric order, then the other keys in the order in which each was
  met first.
\<close>

theorem sections_in_key_order:
  assumes "healthBridgeEntities states = Inr es"
      and "es \<noteq> []"
      and "fst (render_content cfg states) = None"
  shows "es = filter (\<lambda>e. sensor_id e \<and> has_friendly_paren states e = Inr True) (map fst states) \<and>
         (\<exists>title_el secs.
            snd (render_content cfg states) = title_el # secs \<and>
            mapM (\<lambda>u. user_section states u (filter (\<lambda>e. user_of states e = Some u) es))
              (sort_key digits_val (filter is_array_index (first_seen (keys_of states es))) @
               filter (\<lambda>u. \<not> is_array_index u) (first_seen (keys_of states es))) = Inr secs)"
proof -
  from assms(3) obtain title title_nodes es'
    where e': "healthBridgeEntities states = Inr es'"
      and g: "es' \<noteq> [] \<Longrightarrow> \<exists>m secs. userEntityMap states es' = Inr m \<and>
           mapM (\<lambda>u. user_section states u (ids_of m u)) (Object_keys m) = Inr secs \<and>
           snd (render_content cfg states) = Div ''header'' title_nodes # secs"
    by (rule render_content_complete) blast
  from e' assms(1) have "es' = es"
    by simp
  with g assms(2) obtain m secs
    where m: "userEntityMap states es = Inr m"
      and s: "mapM (\<lambda>u. user_section states u (ids_of m u)) (Object_keys m) = Inr secs"
      and c: "snd (render_content cfg states) = Div ''header'' title_nodes # secs"
    by blast
  from userEntityMap_groups [OF m]
  have k: "map fst m = first_seen (keys_of states es)"
    and i: "\<And>u. ids_of m u = filter (\<lambda>e. user_of states e = Some u) es"
    by simp_all
  from i have "(\<lambda>u. user_section states u (ids_of m u)) =
      (\<lambda>u. user_section states u (filter (\<lambda>e. user_of states e = Some u) es))"
    by simp
  with s k have "mapM (\<lambda>u. user_section states u (filter (\<lambda>e. user_of states e = Some u) es))
              (sort_key digits_val (filter is_array_index (first_seen (keys_of states es))) @
               filter (\<lambda>u. \<not> is_array_index u) (first_seen (keys_of states es))) = Inr secs"
    by (simp add: Object_keys_def)
  with c healthBridgeEntities_Inr [OF assms(1)] show ?thesis
    by blast
qed

theorem sections_in_key_order_witness:
  "keys_of [(''sensor.alice_steps'', sensor ''Steps (alice)'' ''1200'' []),
            (''sensor.alice_heart_rate'', sensor ''Heart Rate (alice)'' ''61'' [])]
     [''sensor.alice_steps'', ''sensor.alice_heart_rate''] = [''alice'', ''alice''] \<and>
   (\<exists>title_el.
      snd (render_content (Obj [(''title'', Str ''Health'')])
             [(''sensor.alice_steps'', sensor ''Steps (alice)'' ''1200'' []),
              (''sensor.alice_heart_rate'', sensor ''Heart Rate (alice)'' ''61'' [])]) =
        [title_el,
         Div ''user-section''
           [Div ''user-header'' [Text ''User: alice''],
            Div ''metrics-grid''
              [Div ''metric-card''
                 [Div ''metric-icon'' [Html (''<ha-icon icon='' @ [CHR 0x22] @ ''mdi:help-circle'' @ [CHR 0x22] @ ''></ha-icon>'')],
                  Div ''metric-value'' [Text ''1200''],
                  Div ''metric-name'' [Text ''Steps'']],
               Div ''metric-card''
                 [Div ''metric-icon'' [Html (''<ha-icon icon='' @ [CHR 0x22] @ ''mdi:help-circle'' @ [CHR 0x22] @ ''></ha-icon>'')],
                  Div ''metric-value'' [Text ''61''],
                  Div ''metric-name'' [Text ''Heart Rate'']]]]])"
proof -
  let ?S = "[(''sensor.alice_steps'', sensor ''Steps (alice)'' ''1200'' []),
             (''sensor.alice_heart_rate'', sensor ''Heart Rate (alice)'' ''61'' [])]"
  let ?E = "[''sensor.alice_steps'', ''sensor.alice_heart_rate'']"
  have a: "healthBridgeEntities ?S = Inr ?E"
    by (simp add: eval_defs)
  have b: "?E \<noteq> []"
    by simp
  have c: "fst (render_content (Obj [(''title'', Str ''Health'')]) ?S) = None"
    by (simp add: eval_defs)
  have k: "keys_of ?S ?E = [''alice'', ''alice'']"
    by (simp add: eval_defs)
  have o: "sort_key digits_val (filter is_array_index (first_seen (keys_of ?S ?E))) @
           filter (\<lambda>u. \<not> is_array_index u) (first_seen (keys_of ?S ?E)) = [''alice'']"
    unfolding k by (simp add: first_seen_def is_array_index_def is_digit_def)
  have f: "filter (\<lambda>e. user_of ?S e = Some ''alice'') ?E = ?E"
    by (simp add: eval_defs)
  have s: "user_section ?S ''alice'' ?E =
     Inr (Div ''user-section''
           [Div ''user-header'' [Text ''User: alice''],
            Div ''metrics-grid''
              [Div ''metric-card''
                 [Div ''metric-icon'' [Html (''<ha-icon icon='' @ [CHR 0x22] @ ''mdi:help-circle'' @ [CHR 0x22] @ ''></ha-icon>'')],
                  Div ''metric-value'' [Text ''1200''],
                  Div ''metric-name'' [Text ''Steps'']],
               Div ''metric-card''
                 [Div ''metric-icon'' [Html (''<ha-icon icon='' @ [CHR 0x22] @ ''mdi:help-circle'' @ [CHR 0x22] @ ''></ha-icon>'')],
                  Div ''metric-value'' [Text ''61''],
                  Div ''metric-name'' [Text ''Heart Rate'']]]])"
    by (simp add: eval_defs)
  from sections_in_key_order [OF a b c] obtain title_el secs
    where r: "snd (render_content (Obj [(''title'', Str ''Health'')]) ?S) = title_el # secs"
      and m: "mapM (\<lambda>u. user_section ?S u (filter (\<lambda>e. user_of ?S e = Some u) ?E))
              (sort_key digits_val (filter is_array_index (first_seen (keys_of ?S ?E))) @
               filter (\<lambda>u. \<not> is_array_index u) (first_seen (keys_of ?S ?E))) = Inr secs"
    by blast
  from m have "secs = [Div ''user-section''
           [Div ''user-header'' [Text ''User: alice''],
            Div ''metrics-grid''
              [Div ''metric-card''
                 [Div ''metric-icon'' [Html (''<ha-icon icon='' @ [CHR 0x22] @ ''mdi:help-circle'' @ [CHR 0x22] @ ''></ha-icon>'')],
                  Div ''metric-value'' [Text ''1200''],
                  Div ''metric-name'' [Text ''Steps'']],
               Div ''metric-card''
                 [Div ''metric-icon'' [Html (''<ha-icon icon='' @ [CHR 0x22] @ ''mdi:help-circle'' @ [CHR 0x22] @ ''></ha-icon>'')],
                  Div ''metric-value'' [Text ''61''],
                  Div ''metric-name'' [Text ''Heart Rate'']]]]]"
    unfolding o mapM_single f s by simp
  with r k show ?thesis
    by simp
qed

text \<open>
  C7 as stated fails: the key \<^verbatim>\<open>bob\<close> is met first and the key \<^verbatim>\<open>7\<close> second, and the
  section of \<^verbatim>\<open>7\<close> is rendered first.
\<close>

theorem index_key_section_first:
  "healthBridgeEntities
     [(''sensor.bob_steps'', sensor ''Steps (bob)'' ''1200'' []),
      (''sensor.seven_steps'', sensor ''Steps (7)'' ''900'' [])] =
     Inr [''sensor.bob_steps'', ''sensor.seven_steps''] \<and>
   first_seen (keys_of
     [(''sensor.bob_steps'', sensor ''Steps (bob)'' ''1200'' []),
      (''sensor.seven_steps'', sensor ''Steps (7)'' ''900'' [])]
     [''sensor.bob_steps'', ''sensor.seven_steps'']) = [''bob'', ''7''] \<and>
   render_content (Obj [(''title'', Str ''Health'')])
     [(''sensor.bob_steps'', sensor ''Steps (bob)'' ''1200'' []),
      (''sensor.seven_steps'', sensor ''Steps (7)'' ''900'' [])] =
     (None,
      [Div ''header'' [Text ''Health''],
       Div ''user-section''
         [Div ''user-header'' [Text ''User: 7''],
          Div ''metrics-grid''
            [Div ''metric-card''
               [Div ''metric-icon'' [Html (''<ha-icon icon='' @ [CHR 0x22] @ ''mdi:help-circle'' @ [CHR 0x22] @ ''></ha-icon>'')],
                Div ''metric-value'' [Text ''900''],
                Div ''metric-name'' [Text ''Steps'']]]],
       Div ''user-section''
         [Div ''user-header'' [Text ''User: bob''],
          Div ''metrics-grid''
            [Div ''metric-card''
               [Div ''metric-icon'' [Html (''<ha-icon icon='' @ [CHR 0x22] @ ''mdi:help-circle'' @ [CHR 0x22] @ ''></ha-icon>'')],
                Div ''metric-value'' [Text ''1200''],
                Div ''metric-name'' [Text ''Steps'']]]]])"
  by (simp add: eval_defs)

section \<open>The card of an entity that follows the naming convention\<close>

lemma mapM_length: "mapM f xs = Inr ys \<Longrightarrow> length ys = length xs"
  by (induction xs arbitrary: ys) (auto split: sum.splits)

lemma split_distinct:
  assumes "distinct xs" and "x \<in> set xs"
  obtains as bs where "xs = as @ x # bs" and "x \<notin> set as" and "x \<notin> set bs"
proof -
  from assms(2) obtain as bs where s: "xs = as @ x # bs"
    by (auto dest: split_list)
  with assms(1) have "x \<notin> set as" and "x \<notin> set bs"
    by auto
  with s show thesis
    by (rule that)
qed

lemma user_section_Inr:
  assumes "user_section states u ids = Inr sec"
  obtains cards where "mapM (metric_card states) ids = Inr cards"
    and "sec = Div ''user-section''
                 [Div ''user-header'' [Text (''User: '' @ u)], Div ''metrics-grid'' cards]"
  using assms by (auto simp: user_section_def split: sum.splits)

lemma metric_card_shape:
  assumes "get_own states entity_id = Obj st"
      and "get_own st ''attributes'' = Obj attrs"
      and "get_own attrs ''friendly_name'' = Str friendlyName"
      and "get_own st ''state'' = Str val"
      and "get_own attrs ''unit_of_measurement'' = Str unit"
      and "metric_card states entity_id = Inr mcard"
  shows "\<exists>icon_text.
           ToString (or_else (get_own attrs ''icon'') (Str ''mdi:help-circle'')) = Inr icon_text \<and>
           mcard = Div ''metric-card''
                    ([Div ''metric-icon'' [Html (''<ha-icon icon='' @ [CHR 0x22] @ icon_text @ [CHR 0x22] @ ''></ha-icon>'')],
                      Div ''metric-value'' (if val = [] then [] else [Text val]),
                      Div ''metric-name''
                        (if strip_user friendlyName = [] then []
                         else [Text (strip_user friendlyName)])] @
                     (if unit = [] then [] else [Div ''metric-unit'' [Text unit]]))"
proof -
  have u: "or_else (Str unit) (Str []) = Str unit"
    by (simp add: or_else_def)
  from assms(6) obtain icon_text
    where i: "ToString (or_else (get_own attrs ''icon'') (Str ''mdi:help-circle'')) = Inr icon_text"
    by (cases "ToString (or_else (get_own attrs ''icon'') (Str ''mdi:help-circle''))")
       (simp_all add: metric_card_def friendly_name_of_def card_elements_def assms(1-5))
  from assms(6) i u have "mcard = Div ''metric-card''
                    ([Div ''metric-icon'' [Html (''<ha-icon icon='' @ [CHR 0x22] @ icon_text @ [CHR 0x22] @ ''></ha-icon>'')],
                      Div ''metric-value'' (if val = [] then [] else [Text val]),
                      Div ''metric-name''
                        (if strip_user friendlyName = [] then []
                         else [Text (strip_user friendlyName)])] @
                     (if unit = [] then [] else [Div ''metric-unit'' [Text unit]]))"
    by (simp add: metric_card_def friendly_name_of_def card_elements_def assms(1-5)
          textContent_Str split: if_splits)
  with i show ?thesis
    by blast
qed

lemma convention_entity_passes:
  assumes "get_own states entity_id = Obj st"
      and "get_own st ''attributes'' = Obj attrs"
      and "get_own attrs ''friendly_name'' = Str (name @ '' ('' @ user @ '')'')"
  shows "has_friendly_paren states entity_id = Inr True"
    and "friendly_name_of states entity_id = Inr (Str (name @ '' ('' @ user @ '')''))"
  using assms by (simp_all add: has_friendly_paren_def friendly_name_of_def)

text \<open>
  C2 (as amended). Take a snapshot and in it an entity with a sensor identifier whose
  friendly name is \<open>name\<close>, a space and \<open>user\<close> in parentheses, where every opening
  parenthesis of \<open>name\<close> is closed again within \<open>name\<close> and \<open>user\<close> is not empty and has no
  closing parenthesis; its state is the string \<open>val\<close> and its unit the string \<open>unit\<close>.
  If the pass raises nothing, then \<open>user\<close> is the key of exactly one section, the entity is
  listed exactly once under that key and under no other key, and the content holds, in
  the section of \<open>user\<close> and at the place of the entity among the entities of that
  section, a card with the icon, the value \<open>val\<close> as it is, the name \<open>name\<close> and the unit.
\<close>

theorem convention_entity_card:
  assumes "distinct (map fst states)"
      and "map_of states entity_id = Some (Obj st)"
      and "sensor_id entity_id"
      and "get_own st ''attributes'' = Obj attrs"
      and "get_own attrs ''friendly_name'' = Str (name @ '' ('' @ user @ '')'')"
      and "parens_closed name"
      and "user \<noteq> []"
      and "CHR '')'' \<notin> set user"
      and "get_own st ''state'' = Str val"
      and "get_own attrs ''unit_of_measurement'' = Str unit"
      and "fst (render_content cfg states) = None"
  shows "\<exists>es m ks_before ks_after ids_before ids_after title_el before after
            cards_before cards_after icon_text.
           healthBridgeEntities states = Inr es \<and> userEntityMap states es = Inr m \<and>
           Object_keys m = ks_before @ user # ks_after \<and>
           user \<notin> set ks_before \<and> user \<notin> set ks_after \<and>
           ids_of m user = ids_before @ entity_id # ids_after \<and>
           entity_id \<notin> set ids_before \<and> entity_id \<notin> set ids_after \<and>
           (\<forall>u. u \<noteq> user \<longrightarrow> entity_id \<notin> set (ids_of m u)) \<and>
           length before = length ks_before \<and> length cards_before = length ids_before \<and>
           ToString (or_else (get_own attrs ''icon'') (Str ''mdi:help-circle'')) = Inr icon_text \<and>
           snd (render_content cfg states) =
             title_el # before @
             Div ''user-section''
               [Div ''user-header'' [Text (''User: '' @ user)],
                Div ''metrics-grid''
                  (cards_before @
                   Div ''metric-card''
                     ([Div ''metric-icon'' [Html (''<ha-icon icon='' @ [CHR 0x22] @ icon_text @ [CHR 0x22] @ ''></ha-icon>'')],
                       Div ''metric-value'' (if val = [] then [] else [Text val]),
                       Div ''metric-name'' (if name = [] then [] else [Text name])] @
                      (if unit = [] then [] else [Div ''metric-unit'' [Text unit]])) #
                   cards_after)] #
             after"
proof -
  from assms(2) have own: "get_own states entity_id = Obj st"
    by (simp add: get_own_def)
  from assms(2) have inkeys: "entity_id \<in> set (map fst states)"
    by (auto dest: map_of_SomeD intro: rev_image_eqI)
  note pass = convention_entity_passes [OF own assms(4,5)]
  from pass(2) match_user_convention [OF assms(6,7,8)]
  have user: "user_of states entity_id = Some user"
    by (simp add: user_of_def)
  from assms(11) obtain title title_nodes es
    where es: "healthBridgeEntities states = Inr es"
      and g: "es \<noteq> [] \<Longrightarrow> \<exists>m secs. userEntityMap states es = Inr m \<and>
           mapM (\<lambda>u. user_section states u (ids_of m u)) (Object_keys m) = Inr secs \<and>
           snd (render_content cfg states) = Div ''header'' title_nodes # secs"
    by (rule render_content_complete) blast
  note es_eq = healthBridgeEntities_Inr [OF es]
  from es_eq inkeys assms(3) pass(1) have in_es: "entity_id \<in> set es"
    by simp
  from es_eq assms(1) have dist_es: "distinct es"
    by simp
  from in_es have "es \<noteq> []"
    by auto
  with g obtain m secs
    where m: "userEntityMap states es = Inr m"
      and secs: "mapM (\<lambda>u. user_section states u (ids_of m u)) (Object_keys m) = Inr secs"
      and cont: "snd (render_content cfg states) = Div ''header'' title_nodes # secs"
    by blast
  from userEntityMap_groups [OF m]
  have keys: "map fst m = first_seen (keys_of states es)"
    and ids: "\<And>u. ids_of m u = filter (\<lambda>e. user_of states e = Some u) es"
    by simp_all
  from in_es user have "user \<in> set (keys_of states es)"
    by (force simp: keys_of_def)
  then have uk: "user \<in> set (Object_keys m)"
    by (simp add: set_Object_keys keys set_first_seen flip: set_map)
  have dk: "distinct (Object_keys m)"
    by (rule distinct_Object_keys) (simp add: keys distinct_first_seen)
  from dk uk obtain ks_before ks_after
    where ks: "Object_keys m = ks_before @ user # ks_after"
      and kb: "user \<notin> set ks_before" and ka: "user \<notin> set ks_after"
    by (rule split_distinct)
  have ei: "entity_id \<in> set (ids_of m user)"
    using in_es user by (simp add: ids)
  have di: "distinct (ids_of m user)"
    using dist_es by (simp add: ids)
  from di ei obtain ids_before ids_after
    where isplit: "ids_of m user = ids_before @ entity_id # ids_after"
      and ib: "entity_id \<notin> set ids_before" and ia: "entity_id \<notin> set ids_after"
    by (rule split_distinct)
  have others: "\<forall>u. u \<noteq> user \<longrightarrow> entity_id \<notin> set (ids_of m u)"
    using user by (simp add: ids)
  from secs ks obtain before sec after
    where s1: "secs = before @ sec # after"
      and s2: "mapM (\<lambda>u. user_section states u (ids_of m u)) ks_before = Inr before"
      and s3: "user_section states user (ids_of m user) = Inr sec"
    using mapM_split [of "\<lambda>u. user_section states u (ids_of m u)" ks_before user ks_after secs]
    by auto
  from s3 obtain cards
    where c1: "mapM (metric_card states) (ids_of m user) = Inr cards"
      and c2: "sec = Div ''user-section''
                 [Div ''user-header'' [Text (''User: '' @ user)], Div ''metrics-grid'' cards]"
    by (rule user_section_Inr)
  from c1 isplit obtain cards_before mcard cards_after
    where d1: "cards = cards_before @ mcard # cards_after"
      and d2: "mapM (metric_card states) ids_before = Inr cards_before"
      and d3: "metric_card states entity_id = Inr mcard"
    using mapM_split [of "metric_card states" ids_before entity_id ids_after cards]
    by auto
  from metric_card_shape [OF own assms(4,5,9,10) d3] strip_user_convention [OF assms(6,7,8)]
  obtain icon_text
    where i: "ToString (or_else (get_own attrs ''icon'') (Str ''mdi:help-circle'')) = Inr icon_text"
      and mc: "mcard = Div ''metric-card''
                     ([Div ''metric-icon'' [Html (''<ha-icon icon='' @ [CHR 0x22] @ icon_text @ [CHR 0x22] @ ''></ha-icon>'')],
                       Div ''metric-value'' (if val = [] then [] else [Text val]),
                       Div ''metric-name'' (if name = [] then [] else [Text name])] @
                      (if unit = [] then [] else [Div ''metric-unit'' [Text unit]]))"
    by auto
  have final: "snd (render_content cfg states) =
             Div ''header'' title_nodes # before @
             Div ''user-section''
               [Div ''user-header'' [Text (''User: '' @ user)],
                Div ''metrics-grid''
                  (cards_before @
                   Div ''metric-card''
                     ([Div ''metric-icon'' [Html (''<ha-icon icon='' @ [CHR 0x22] @ icon_text @ [CHR 0x22] @ ''></ha-icon>'')],
                       Div ''metric-value'' (if val = [] then [] else [Text val]),
                       Div ''metric-name'' (if name = [] then [] else [Text name])] @
                      (if unit = [] then [] else [Div ''metric-unit'' [Text unit]])) #
                   cards_after)] #
             after"
    unfolding cont s1 c2 d1 mc ..
  from es m ks kb ka isplit ib ia others mapM_length [OF s2] mapM_length [OF d2] i final
  show ?thesis
    by blast
qed

theorem convention_entity_card_witness:
  "\<exists>es m ks_before ks_after ids_before ids_after title_el before after
      cards_before cards_after icon_text.
     healthBridgeEntities
       [(''sensor.alice_steps'', sensor ''Steps (alice)'' ''1200'' [(''unit_of_measurement'', Str ''count'')])] =
       Inr es \<and>
     userEntityMap
       [(''sensor.alice_steps'', sensor ''Steps (alice)'' ''1200'' [(''unit_of_measurement'', Str ''count'')])]
       es = Inr m \<and>
     Object_keys m = ks_before @ ''alice'' # ks_after \<and>
     ''alice'' \<notin> set ks_before \<and> ''alice'' \<notin> set ks_after \<and>
     ids_of m ''alice'' = ids_before @ ''sensor.alice_steps'' # ids_after \<and>
     ''sensor.alice_steps'' \<notin> set ids_before \<and> ''sensor.alice_steps'' \<notin> set ids_after \<and>
     (\<forall>u. u \<noteq> ''alice'' \<longrightarrow> ''sensor.alice_steps'' \<notin> set (ids_of m u)) \<and>
     length before = length ks_before \<and> length cards_before = length ids_before \<and>
     ToString (or_else (get_own [(''friendly_name'', Str ''Steps (alice)''),
                                 (''unit_of_measurement'', Str ''count'')] ''icon'')
                 (Str ''mdi:help-circle'')) = Inr icon_text \<and>
     snd (render_content (Obj [(''title'', Str ''Health'')])
            [(''sensor.alice_steps'',
              sensor ''Steps (alice)'' ''1200'' [(''unit_of_measurement'', Str ''count'')])]) =
       title_el # before @
       Div ''user-section''
         [Div ''user-header'' [Text (''User: '' @ ''alice'')],
          Div ''metrics-grid''
            (cards_before @
             Div ''metric-card''
               ([Div ''metric-icon'' [Html (''<ha-icon icon='' @ [CHR 0x22] @ icon_text @ [CHR 0x22] @ ''></ha-icon>'')],
                 Div ''metric-value'' (if ''1200'' = [] then [] else [Text ''1200'']),
                 Div ''metric-name'' (if ''Steps'' = [] then [] else [Text ''Steps''])] @
                (if ''count'' = [] then [] else [Div ''metric-unit'' [Text ''count'']])) #
             cards_after)] #
       after"
proof -
  let ?attrs = "[(''friendly_name'', Str ''Steps (alice)''), (''unit_of_measurement'', Str ''count'')]"
  let ?st = "[(''state'', Str ''1200''), (''attributes'', Obj ?attrs)]"
  let ?S = "[(''sensor.alice_steps'',
              sensor ''Steps (alice)'' ''1200'' [(''unit_of_measurement'', Str ''count'')])]"
  have h1: "distinct (map fst ?S)"
    by simp
  have h2: "map_of ?S ''sensor.alice_steps'' = Some (Obj ?st)"
    by (simp add: sensor_def)
  have h3: "sensor_id ''sensor.alice_steps''"
    by (simp add: sensor_id_def startsWith_def)
  have h4: "get_own ?st ''attributes'' = Obj ?attrs"
    by (simp add: get_own_def)
  have h5: "get_own ?attrs ''friendly_name'' = Str (''Steps'' @ '' ('' @ ''alice'' @ '')'')"
    by (simp add: get_own_def)
  have h6: "parens_closed ''Steps''"
    by simp
  have h7: "''alice'' \<noteq> []"
    by simp
  have h8: "CHR '')'' \<notin> set ''alice''"
    by simp
  have h9: "get_own ?st ''state'' = Str ''1200''"
    by (simp add: get_own_def)
  have h10: "get_own ?attrs ''unit_of_measurement'' = Str ''count''"
    by (simp add: get_own_def)
  have h11: "fst (render_content (Obj [(''title'', Str ''Health'')]) ?S) = None"
    by (simp add: eval_defs)
  show ?thesis
    by (rule convention_entity_card [OF h1 h2 h3 h4 h5 h6 h7 h8 h9 h10 h11])
qed

text \<open>
  C2 as stated fails: the friendly name below is \<^verbatim>\<open>Heart(rate\<close>, a space and \<^verbatim>\<open>alice\<close> in
  parentheses; the leftmost match of the key pattern starts at the first parenthesis, and
  the card is placed in a section with the key \<^verbatim>\<open>rate (alice\<close>, none having the key
  \<^verbatim>\<open>alice\<close>.
\<close>

theorem unclosed_paren_other_key:
  "''Heart(rate (alice)'' = ''Heart(rate'' @ '' ('' @ ''alice'' @ '')'' \<and>
   render_content (Obj [(''title'', Str ''Health'')])
     [(''sensor.alice_heart'',
       sensor ''Heart(rate (alice)'' ''61'' [(''unit_of_measurement'', Str ''bpm'')])] =
     (None,
      [Div ''header'' [Text ''Health''],
       Div ''user-section''
         [Div ''user-header'' [Text ''User: rate (alice''],
          Div ''metrics-grid''
            [Div ''metric-card''
               [Div ''metric-icon'' [Html (''<ha-icon icon='' @ [CHR 0x22] @ ''mdi:help-circle'' @ [CHR 0x22] @ ''></ha-icon>'')],
                Div ''metric-value'' [Text ''61''],
                Div ''metric-name'' [Text ''Heart(rate''],
                Div ''metric-unit'' [Text ''bpm'']]]]])"
  by (simp add: eval_defs)

section \<open>Entities with partial attributes\<close>

lemma has_friendly_paren_friendly_of:
  "has_friendly_paren states e =
     (if \<not> truthy (friendly_of (get_own states e)) then Inr False
      else includes_str (friendly_of (get_own states e)) (CHR ''(''))"
proof (cases "get_own states e")
  case (Obj kvs)
  then show ?thesis
    by (cases "get_own kvs ''attributes''")
       (simp_all add: has_friendly_paren_def friendly_of_def)
qed (simp_all add: has_friendly_paren_def friendly_of_def)

lemma friendly_of_Str:
  assumes "friendly_of st = Str s"
  obtains kvs attrs where "st = Obj kvs" and "get_own kvs ''attributes'' = Obj attrs"
    and "get_own attrs ''friendly_name'' = Str s"
proof (cases st)
  case (Obj kvs)
  show ?thesis
  proof (cases "get_own kvs ''attributes''")
    case attrs: (Obj attrs)
    with Obj assms have "get_own attrs ''friendly_name'' = Str s"
      by (simp add: friendly_of_def)
    with Obj attrs show ?thesis
      by (rule that)
  qed (use Obj assms in \<open>simp_all add: friendly_of_def split: if_splits\<close>)
qed (use assms in \<open>simp_all add: friendly_of_def split: if_splits\<close>)

lemma friendly_name_of_Str:
  assumes "friendly_of (get_own states e) = Str s"
  shows "friendly_name_of states e = Inr (Str s)"
proof -
  from assms obtain kvs attrs where "get_own states e = Obj kvs"
    and "get_own kvs ''attributes'' = Obj attrs" and "get_own attrs ''friendly_name'' = Str s"
    by (rule friendly_of_Str)
  then show ?thesis
    by (simp add: friendly_name_of_def)
qed

lemma filterM_total:
  "(\<And>x. x \<in> set xs \<Longrightarrow> \<exists>b. f x = Inr b) \<Longrightarrow> \<exists>ys. filterM f xs = Inr ys"
proof (induction xs)
  case Nil
  show ?case by simp
next
  case (Cons x xs)
  from Cons.prems obtain b where "f x = Inr b"
    by auto
  moreover from Cons obtain ys where "filterM f xs = Inr ys"
    by auto
  ultimately show ?case
    by simp
qed

lemma foldM_total:
  "(\<And>s x. x \<in> set xs \<Longrightarrow> \<exists>s'. f s x = Inr s') \<Longrightarrow> \<exists>s'. foldM f xs s = Inr s'"
proof (induction xs arbitrary: s)
  case Nil
  show ?case by simp
next
  case (Cons x xs)
  from Cons.prems obtain s1 where "f s x = Inr s1"
    by auto
  moreover have "\<exists>s2. foldM f xs s1 = Inr s2"
    by (rule Cons.IH) (simp add: Cons.prems)
  ultimately show ?case
    by auto
qed

lemma mapM_total:
  "(\<And>x. x \<in> set xs \<Longrightarrow> \<exists>y. f x = Inr y) \<Longrightarrow> \<exists>ys. mapM f xs = Inr ys"
proof (induction xs)
  case Nil
  show ?case by simp
next
  case (Cons x xs)
  from Cons.prems obtain y where "f x = Inr y"
    by auto
  moreover from Cons obtain ys where "mapM f xs = Inr ys"
    by auto
  ultimately show ?case
    by simp
qed

lemma ToString_primitive: "primitive v \<Longrightarrow> \<exists>s. ToString v = Inr s"
  by (cases v) simp_all

lemma textContent_primitive: "primitive v \<Longrightarrow> \<exists>ns. textContent v = Inr ns"
  by (cases v) (simp_all add: textContent_def)

lemma get_own_in_set:
  assumes "k \<in> set (map fst states)"
  shows "(k, get_own states k) \<in> set states"
proof -
  from assms obtain v where "map_of states k = Some v"
    by (cases "map_of states k") (auto simp: map_of_eq_None_iff)
  then show ?thesis
    by (auto simp: get_own_def dest: map_of_SomeD)
qed

lemma partial_filter:
  assumes "partial_entity (get_own states e)"
  shows "\<exists>b. has_friendly_paren states e = Inr b"
  using assms
  by (cases "friendly_of (get_own states e)")
     (auto simp: has_friendly_paren_friendly_of partial_entity_def)

lemma partial_group_step:
  assumes "partial_entity (get_own states e)"
      and "has_friendly_paren states e = Inr True"
  shows "\<exists>m'. group_step states m e = Inr m'"
proof -
  from assms obtain s where s: "friendly_of (get_own states e) = Str s"
    by (cases "friendly_of (get_own states e)")
       (simp_all add: has_friendly_paren_friendly_of partial_entity_def split: if_splits)
  note fn = friendly_name_of_Str [OF s]
  show ?thesis
  proof (cases "match_user s")
    case None
    with fn show ?thesis
      by (simp add: group_step_def)
  next
    case (Some u)
    with assms(1) s have "u \<notin> set Object_prototype_keys"
      by (simp add: partial_entity_def)
    with Some fn show ?thesis
      by (simp add: group_step_def push_entity_def split: option.splits)
  qed
qed

lemma partial_metric_card:
  assumes "partial_entity (get_own states e)"
      and "user_of states e = Some u"
  shows "\<exists>d. metric_card states e = Inr d"
proof -
  from assms(2) obtain s where fn: "friendly_name_of states e = Inr (Str s)"
    and mu: "match_user s = Some u"
    by (auto simp: user_of_def split: sum.splits jsval.splits)
  from fn obtain kvs attrs where st: "get_own states e = Obj kvs"
    and at: "get_own kvs ''attributes'' = Obj attrs"
    and f: "get_own attrs ''friendly_name'' = Str s"
  proof (cases "get_own states e")
    case (Obj kvs)
    with fn show ?thesis
      by (cases "get_own kvs ''attributes''")
         (auto simp: friendly_name_of_def intro: that)
  qed (simp_all add: friendly_name_of_def)
  from mu have "s \<noteq> []"
    by auto
  with st at f have "friendly_of (get_own states e) = Str s"
    by (simp add: friendly_of_def)
  with assms(1) mu st at
  have pv: "primitive (get_own kvs ''state'')" and pi: "primitive (get_own attrs ''icon'')"
    and pu: "primitive (get_own attrs ''unit_of_measurement'')"
    by (simp_all add: partial_entity_def)
  from pi have "primitive (or_else (get_own attrs ''icon'') (Str ''mdi:help-circle''))"
    by (simp add: or_else_def)
  from ToString_primitive [OF this] obtain icon_text
    where i: "ToString (or_else (get_own attrs ''icon'') (Str ''mdi:help-circle'')) = Inr icon_text" ..
  from textContent_primitive [OF pv] obtain value_nodes
    where v: "textContent (get_own kvs ''state'') = Inr value_nodes" ..
  from pu have "primitive (or_else (get_own attrs ''unit_of_measurement'') (Str []))"
    by (simp add: or_else_def)
  from textContent_primitive [OF this] obtain unit_nodes
    where un: "textContent (or_else (get_own attrs ''unit_of_measurement'') (Str [])) = Inr unit_nodes" ..
  from st at f i v un show ?thesis
    by (simp add: metric_card_def friendly_name_of_def card_elements_def textContent_Str)
qed

lemma render_content_total:
  assumes "get cfg ''title'' = Inr title"
      and "primitive title"
      and "\<And>k st. (k, st) \<in> set states \<Longrightarrow> sensor_id k \<Longrightarrow> partial_entity st"
  shows "fst (render_content cfg states) = None"
proof -
  from textContent_primitive [OF assms(2)] obtain title_nodes
    where tn: "textContent title = Inr title_nodes" ..
  have part: "partial_entity (get_own states e)"
    if "e \<in> set (filter sensor_id (Object_keys states))" for e
  proof -
    from that have "sensor_id e" and "e \<in> set (map fst states)"
      by (simp_all add: sensor_keys)
    with get_own_in_set [of e states] assms(3) show ?thesis
      by blast
  qed
  from filterM_total [of "filter sensor_id (Object_keys states)" "has_friendly_paren states"]
       partial_filter part
  obtain es where es: "healthBridgeEntities states = Inr es"
    unfolding healthBridgeEntities_def by blast
  from es have sub: "e \<in> set es \<Longrightarrow>
      e \<in> set (filter sensor_id (Object_keys states)) \<and> has_friendly_paren states e = Inr True" for e
    unfolding healthBridgeEntities_def by (auto dest: filterM_Inr)
  show ?thesis
  proof (cases "es = []")
    case True
    with assms(1) tn es show ?thesis
      by (simp add: render_content_def)
  next
    case False
    from foldM_total [of es "group_step states" "[]"] partial_group_step part sub
    obtain m where m: "userEntityMap states es = Inr m"
      unfolding userEntityMap_def by blast
    note ids = userEntityMap_groups [OF m, THEN conjunct2, rule_format]
    have "\<exists>sec. user_section states u (ids_of m u) = Inr sec" for u
    proof -
      have "\<exists>d. metric_card states e = Inr d" if "e \<in> set (ids_of m u)" for e
      proof -
        from that have "e \<in> set es" and "user_of states e = Some u"
          by (simp_all add: ids)
        with sub part partial_metric_card show ?thesis
          by blast
      qed
      from mapM_total [of "ids_of m u" "metric_card states", OF this]
      obtain cards where "mapM (metric_card states) (ids_of m u) = Inr cards"
        by blast
      then show ?thesis
        by (simp add: user_section_def)
    qed
    from mapM_total [of "Object_keys m" "\<lambda>u. user_section states u (ids_of m u)", OF this]
    obtain secs where "mapM (\<lambda>u. user_section states u (ids_of m u)) (Object_keys m) = Inr secs"
      by blast
    from append_sections_mapM [OF this] assms(1) tn es False m show ?thesis
      by (simp add: render_content_def)
  qed
qed

text \<open>
  C5 (as amended). \<^verbatim>\<open>setConfig\<close> called with \<^verbatim>\<open>undefined\<close>, \<^verbatim>\<open>null\<close> or another value that is
  not an object throws a TypeError. Called with an object whose title is missing or
  primitive it returns, and then an update raises nothing on any snapshot in which every
  entity with a sensor identifier has partial attributes of the expected kinds: a state
  or its attributes may be missing, the friendly name is missing, falsy or a string, and
  for an entity that yields a grouping key the key is not the name of a property of
  \<^verbatim>\<open>Object.prototype\<close> and the state value, the icon and the unit are missing or primitive.
\<close>

theorem no_exception_on_partial_entities:
  assumes "primitive (get_own kvs ''title'')"
      and "\<And>k st. (k, st) \<in> set states \<Longrightarrow> sensor_id k \<Longrightarrow> partial_entity st"
  shows "(primitive v \<longrightarrow> setConfig v w = Inl TypeError) \<and>
         (\<exists>cfg' w'. setConfig (Obj kvs) w = Inr (cfg', w') \<and>
            (\<forall>w2. config w2 = cfg' \<longrightarrow> fst (set_hass states w2) = None))"
proof
  show "primitive v \<longrightarrow> setConfig v w = Inl TypeError"
    by (cases v) (simp_all add: setConfig_def)
next
  define cfg' where "cfg' =
    (if truthy (get_own kvs ''title'') then Obj kvs
     else Obj (AList.update ''title'' (Str ''Health Bridge'') kvs))"
  have sc: "setConfig (Obj kvs) w = Inr (cfg', w\<lparr>config := cfg'\<rparr>)"
    by (simp add: setConfig_def cfg'_def)
  have tr: "truthy cfg'"
    by (simp add: cfg'_def)
  obtain title where t: "get cfg' ''title'' = Inr title" and p: "primitive title"
  proof (cases "truthy (get_own kvs ''title'')")
    case True
    with assms(1) have "get cfg' ''title'' = Inr (get_own kvs ''title'')"
      and "primitive (get_own kvs ''title'')"
      by (simp_all add: cfg'_def)
    then show ?thesis
      by (rule that)
  next
    case False
    then have "get cfg' ''title'' = Inr (Str ''Health Bridge'')"
      and "primitive (Str ''Health Bridge'')"
      by (simp_all add: cfg'_def get_own_def update_conv')
    then show ?thesis
      by (rule that)
  qed
  have "fst (set_hass states w2) = None" if "config w2 = cfg'" for w2
  proof -
    from that tr have "truthy (config w2)"
      by simp
    from set_hass_error [OF this, of states] that
         render_content_total [OF t p assms(2)]
    show ?thesis
      by simp
  qed
  with sc show "\<exists>cfg' w'. setConfig (Obj kvs) w = Inr (cfg', w') \<and>
            (\<forall>w2. config w2 = cfg' \<longrightarrow> fst (set_hass states w2) = None)"
    by blast
qed

theorem no_exception_on_partial_entities_witness:
  "setConfig Null new_card = Inl TypeError \<and>
   (\<exists>cfg' w'. setConfig (Obj []) new_card = Inr (cfg', w') \<and>
      config w' = cfg' \<and>
      fst (set_hass
             [(''sensor.alice_steps'', sensor ''Steps (alice)'' ''1200'' []),
              (''sensor.no_attributes'', Obj [(''state'', Str ''7'')]),
              (''sensor.null_state'', Null),
              (''sensor.odd_name'', Obj [(''attributes'', Obj [(''friendly_name'', Null)])])]
             w') = None)"
proof -
  let ?S = "[(''sensor.alice_steps'', sensor ''Steps (alice)'' ''1200'' []),
              (''sensor.no_attributes'', Obj [(''state'', Str ''7'')]),
              (''sensor.null_state'', Null),
              (''sensor.odd_name'', Obj [(''attributes'', Obj [(''friendly_name'', Null)])])]"
  have a: "primitive (get_own [] ''title'')"
    by (simp add: get_own_def)
  have b: "partial_entity st" if "(k, st) \<in> set ?S" and "sensor_id k" for k st
  proof -
    have "partial_entity (sensor ''Steps (alice)'' ''1200'' [])"
      and "partial_entity (Obj [(''state'', Str ''7'')])"
      and "partial_entity Null"
      and "partial_entity (Obj [(''attributes'', Obj [(''friendly_name'', Null)])])"
      by (simp_all add: partial_entity_def friendly_of_def get_own_def sensor_def
            Object_prototype_keys_def)
    with that(1) show ?thesis
      by auto
  qed
  have c: "primitive Null"
    by simp
  from no_exception_on_partial_entities [of "[]" ?S Null new_card, OF a b] c
  have one: "setConfig Null new_card = Inl TypeError"
    and two: "\<exists>cfg' w'. setConfig (Obj []) new_card = Inr (cfg', w') \<and>
            (\<forall>w2. config w2 = cfg' \<longrightarrow> fst (set_hass ?S w2) = None)"
    by simp_all
  from two obtain cfg' w' where s: "setConfig (Obj []) new_card = Inr (cfg', w')"
    and n: "\<forall>w2. config w2 = cfg' \<longrightarrow> fst (set_hass ?S w2) = None"
    by blast
  from s have "config w' = cfg'"
    by (auto simp: setConfig_def get_own_def)
  with s n have "setConfig (Obj []) new_card = Inr (cfg', w') \<and> config w' = cfg' \<and>
      fst (set_hass ?S w') = None"
    by simp
  then have "\<exists>cfg' w'. setConfig (Obj []) new_card = Inr (cfg', w') \<and> config w' = cfg' \<and>
      fst (set_hass ?S w') = None"
    by (intro exI)
  with one show ?thesis
    by (rule conjI)
qed

text \<open>
  C5 as stated fails: \<^verbatim>\<open>setConfig\<close> throws a TypeError on \<^verbatim>\<open>null\<close> and on \<^verbatim>\<open>undefined\<close>, and
  an update throws a TypeError on a snapshot with an entity whose friendly name is
  \<^verbatim>\<open>true\<close>, leaving the header alone in the content.
\<close>

theorem setConfig_null_throws:
  "setConfig Null new_card = Inl TypeError \<and> setConfig Undefined new_card = Inl TypeError \<and>
   set_hass [(''sensor.a_steps'', Obj [(''state'', Str ''1''),
                (''attributes'', Obj [(''friendly_name'', Bool True)])])] (titled ''Health'') =
     (Some TypeError,
      \<lparr>hass = Some [(''sensor.a_steps'', Obj [(''state'', Str ''1''),
                (''attributes'', Obj [(''friendly_name'', Bool True)])])],
       config = Obj [(''title'', Str ''Health'')],
       content = Some [Div ''header'' [Text ''Health'']],
       styles = 1\<rparr>)"
  by (simp add: eval_defs)

section \<open>Entities outside the naming convention\<close>

lemma get_own_other: "k \<noteq> e \<Longrightarrow> get_own (xs @ (e, st) # ys) k = get_own (xs @ ys) k"
  by (simp add: get_own_def map_add_def split: option.splits)

lemma get_own_self:
  assumes "e \<notin> fst ` set xs"
  shows "get_own (xs @ (e, st) # ys) e = st"
proof -
  from assms have "map_of xs e = None"
    by (simp add: map_of_eq_None_iff)
  then show ?thesis
    by (simp add: get_own_def map_add_def)
qed

lemma has_friendly_paren_cong:
  "get_own s k = get_own s' k \<Longrightarrow> has_friendly_paren s k = has_friendly_paren s' k"
  by (simp add: has_friendly_paren_def)

lemma group_step_cong:
  "get_own s k = get_own s' k \<Longrightarrow> group_step s m k = group_step s' m k"
  by (simp add: group_step_def friendly_name_of_def)

lemma metric_card_cong:
  "get_own s k = get_own s' k \<Longrightarrow> metric_card s k = metric_card s' k"
  by (simp add: metric_card_def friendly_name_of_def)

lemma user_of_cong:
  "get_own s k = get_own s' k \<Longrightarrow> user_of s k = user_of s' k"
  by (simp add: user_of_def friendly_name_of_def)

lemma filterM_cong: "(\<And>x. x \<in> set xs \<Longrightarrow> f x = g x) \<Longrightarrow> filterM f xs = filterM g xs"
  by (induction xs) (auto split: sum.splits)

lemma foldM_cong: "(\<And>s x. x \<in> set xs \<Longrightarrow> f s x = g s x) \<Longrightarrow> foldM f xs s = foldM g xs s"
  by (induction xs arbitrary: s) (simp_all split: sum.splits)

lemma mapM_cong: "(\<And>x. x \<in> set xs \<Longrightarrow> f x = g x) \<Longrightarrow> mapM f xs = mapM g xs"
  by (induction xs) (auto split: sum.splits)

lemma filterM_append:
  "filterM f (xs @ ys) =
     (case filterM f xs of
        Inl e \<Rightarrow> Inl e
      | Inr as \<Rightarrow> (case filterM f ys of Inl e \<Rightarrow> Inl e | Inr bs \<Rightarrow> Inr (as @ bs)))"
  by (induction xs) (auto split: sum.splits)

lemma foldM_append:
  "foldM f (xs @ ys) s = (case foldM f xs s of Inl e \<Rightarrow> Inl e | Inr s' \<Rightarrow> foldM f ys s')"
  by (induction xs arbitrary: s) (auto split: sum.splits)

lemma append_sections_cong:
  "(\<And>u. u \<in> set ks \<Longrightarrow> user_section s u (ids_of m u) = user_section s' u (ids_of m u)) \<Longrightarrow>
     append_sections s m ks c = append_sections s' m ks c"
  by (induction ks arbitrary: c) (simp_all split: sum.splits)

lemma friendly_name_of_Str_friendly_of:
  assumes "friendly_name_of states e = Inr (Str s)"
  shows "friendly_of (get_own states e) = Str s \<or> s = []"
proof (cases "get_own states e")
  case (Obj kvs)
  with assms show ?thesis
    by (cases "get_own kvs ''attributes''")
       (auto simp: friendly_name_of_def friendly_of_def)
qed (use assms in \<open>simp_all add: friendly_name_of_def\<close>)

lemma match_user_Nil: "match_user [] = None"
  by simp

text \<open>What the two loops do with an entity whose friendly name has no parenthetical.\<close>

lemma plain_friendly_name_dropped:
  assumes "plain_friendly_name (get_own states e)"
  shows "\<exists>b. has_friendly_paren states e = Inr b"
    and "user_of states e = None"
    and "has_friendly_paren states e = Inr True \<Longrightarrow> group_step states m e = Inr m"
proof -
  show "\<exists>b. has_friendly_paren states e = Inr b"
    using assms
    by (cases "friendly_of (get_own states e)")
       (auto simp: has_friendly_paren_friendly_of plain_friendly_name_def)
  show u: "user_of states e = None"
  proof (cases "friendly_name_of states e")
    case (Inl err)
    then show ?thesis
      by (simp add: user_of_def)
  next
    case (Inr v)
    show ?thesis
    proof (cases v)
      case (Str s)
      with Inr friendly_name_of_Str_friendly_of [of states e s]
      have "friendly_of (get_own states e) = Str s \<or> s = []"
        by simp
      then have "match_user s = None"
      proof
        assume "friendly_of (get_own states e) = Str s"
        with assms have "\<not> ends_in_parenthetical s"
          by (simp add: plain_friendly_name_def)
        then show ?thesis
          by (simp add: match_user_None_iff)
      next
        assume "s = []"
        then show ?thesis
          by simp
      qed
      with Inr Str show ?thesis
        by (simp add: user_of_def)
    qed (use Inr in \<open>simp_all add: user_of_def\<close>)
  qed
  show "group_step states m e = Inr m" if t: "has_friendly_paren states e = Inr True"
  proof -
    from t assms obtain s where "friendly_of (get_own states e) = Str s"
      by (cases "friendly_of (get_own states e)")
         (auto simp: has_friendly_paren_friendly_of plain_friendly_name_def split: if_splits)
    from friendly_name_of_Str [OF this] u show ?thesis
      by (simp add: group_step_def user_of_def split: option.splits)
  qed
qed

lemma error_unique: "(x :: error) = y"
  by (cases x; cases y) simp

lemma excluded_entities:
  assumes "distinct (map fst (xs @ (e, st) # ys))"
      and "\<not> sensor_id e \<or> plain_friendly_name st"
  shows "(\<exists>err. healthBridgeEntities (xs @ ys) = Inl err \<and>
                healthBridgeEntities (xs @ (e, st) # ys) = Inl err) \<or>
         (\<exists>a b X. healthBridgeEntities (xs @ ys) = Inr (a @ b) \<and>
                  healthBridgeEntities (xs @ (e, st) # ys) = Inr (a @ X @ b) \<and>
                  e \<notin> set a \<and> e \<notin> set b \<and>
                  (X = [] \<or> X = [e] \<and> sensor_id e \<and>
                     has_friendly_paren (xs @ (e, st) # ys) e = Inr True))"
proof -
  let ?S = "xs @ (e, st) # ys" and ?S' = "xs @ ys"
  let ?A = "filter sensor_id (map fst xs)" and ?B = "filter sensor_id (map fst ys)"
  let ?E = "if sensor_id e then [e] else []"
  let ?f = "has_friendly_paren ?S" and ?f' = "has_friendly_paren ?S'"
  from assms(1) have ex: "e \<notin> fst ` set xs" and ey: "e \<notin> fst ` set ys"
    by auto
  have own: "get_own ?S e = st"
    using ex by (rule get_own_self)
  have A: "filterM ?f ?A = filterM ?f' ?A"
    using ex by (intro filterM_cong has_friendly_paren_cong get_own_other) auto
  have B: "filterM ?f ?B = filterM ?f' ?B"
    using ey by (intro filterM_cong has_friendly_paren_cong get_own_other) auto
  have keys: "filter sensor_id (Object_keys ?S) = ?A @ ?E @ ?B"
    and keys': "filter sensor_id (Object_keys ?S') = ?A @ ?B"
    by (simp_all add: sensor_keys)
  obtain X where X: "filterM ?f ?E = Inr X"
    and X': "X = [] \<or> X = [e] \<and> sensor_id e \<and> ?f e = Inr True"
  proof (cases "sensor_id e")
    case False
    then have "filterM ?f ?E = Inr []"
      by simp
    then show ?thesis
      by (rule that) simp
  next
    case True
    with assms(2) own have "plain_friendly_name (get_own ?S e)"
      by simp
    from plain_friendly_name_dropped(1) [OF this] obtain b where b: "?f e = Inr b" ..
    with True have "filterM ?f ?E = Inr (if b then [e] else [])"
      by simp
    moreover from b True
    have "(if b then [e] else []) = [] \<or>
          (if b then [e] else []) = [e] \<and> sensor_id e \<and> ?f e = Inr True"
      by simp
    ultimately show ?thesis
      by (rule that)
  qed
  show ?thesis
  proof (cases "filterM ?f' ?A")
    case (Inl err)
    with A have "healthBridgeEntities ?S' = Inl err" and "healthBridgeEntities ?S = Inl err"
      unfolding healthBridgeEntities_def keys keys' by (simp_all add: filterM_append)
    then show ?thesis
      by blast
  next
    case a: (Inr a)
    from a have ea: "e \<notin> set a"
      using ex by (auto dest!: filterM_Inr)
    show ?thesis
    proof (cases "filterM ?f' ?B")
      case (Inl err)
      with a A B X have "healthBridgeEntities ?S' = Inl err" and "healthBridgeEntities ?S = Inl err"
        unfolding healthBridgeEntities_def keys keys' by (simp_all add: filterM_append)
      then show ?thesis
        by blast
    next
      case b: (Inr b)
      from b have eb: "e \<notin> set b"
        using ey by (auto dest!: filterM_Inr)
      from a b A B X have "healthBridgeEntities ?S' = Inr (a @ b)"
        and "healthBridgeEntities ?S = Inr (a @ X @ b)"
        unfolding healthBridgeEntities_def keys keys' by (simp_all add: filterM_append)
      with ea eb X' show ?thesis
        by blast
    qed
  qed
qed

lemma excluded_groups:
  assumes "e \<notin> fst ` set xs"
      and "plain_friendly_name st \<or> X = []"
      and "e \<notin> set a" and "e \<notin> set b"
      and "X = [] \<or> X = [e] \<and> has_friendly_paren (xs @ (e, st) # ys) e = Inr True"
  shows "userEntityMap (xs @ (e, st) # ys) (a @ X @ b) = userEntityMap (xs @ ys) (a @ b)"
proof -
  let ?S = "xs @ (e, st) # ys" and ?S' = "xs @ ys"
  have own: "get_own ?S e = st"
    using assms(1) by (rule get_own_self)
  have X: "foldM (group_step ?S) X m = Inr m" for m
  proof (cases "X = []")
    case True
    then show ?thesis
      by simp
  next
    case False
    with assms(2,5) own have "plain_friendly_name (get_own ?S e)"
      and "has_friendly_paren ?S e = Inr True" and "X = [e]"
      by simp_all
    with plain_friendly_name_dropped(3) [of ?S e m] show ?thesis
      by simp
  qed
  have "foldM (group_step ?S) (a @ X @ b) [] = foldM (group_step ?S) (a @ b) []"
    by (simp add: foldM_append X split: sum.splits)
  also have "\<dots> = foldM (group_step ?S') (a @ b) []"
    using assms(3,4) by (intro foldM_cong group_step_cong get_own_other) auto
  finally show ?thesis
    by (simp add: userEntityMap_def)
qed

lemma excluded_sections:
  assumes "userEntityMap (xs @ ys) es = Inr m"
      and "e \<notin> set es"
  shows "append_sections (xs @ (e, st) # ys) m ks c = append_sections (xs @ ys) m ks c"
proof (rule append_sections_cong)
  fix u
  note ids = userEntityMap_groups [OF assms(1), THEN conjunct2, rule_format]
  have "mapM (metric_card (xs @ (e, st) # ys)) (ids_of m u) =
        mapM (metric_card (xs @ ys)) (ids_of m u)"
    using assms(2) by (intro mapM_cong metric_card_cong get_own_other) (auto simp: ids)
  then show "user_section (xs @ (e, st) # ys) u (ids_of m u) =
             user_section (xs @ ys) u (ids_of m u)"
    by (simp add: user_section_def)
qed

lemma healthBridgeEntities_sensor:
  assumes "healthBridgeEntities states = Inr es" and "k \<in> set es"
  shows "sensor_id k"
  using healthBridgeEntities_Inr [OF assms(1)] assms(2) by simp

lemma render_content_groups:
  assumes "get cfg ''title'' = Inr title" and "textContent title = Inr title_nodes"
      and "healthBridgeEntities states = Inr es" and "es \<noteq> []"
  shows "render_content cfg states =
           (case userEntityMap states es of
              Inl err \<Rightarrow> (Some err, [Div ''header'' title_nodes])
            | Inr m \<Rightarrow> append_sections states m (Object_keys m) [Div ''header'' title_nodes])"
  using assms by (simp add: render_content_def Let_def)

text \<open>
  C3 (as amended). Take a snapshot and in it an entity whose identifier is not a sensor
  identifier, whatever its state holds, or whose friendly name is missing, falsy or a
  string without a parenthesized suffix, whatever else the entity holds. An update raises
  an exception with the entity in the snapshot exactly when it raises one without it; the
  content is the one rendered without the entity (or, where without the entity the
  placeholder is shown, the header alone); and the entity is listed under no grouping
  key.
\<close>

theorem excluded_entity_leaves_no_trace:
  assumes "distinct (map fst (xs @ (e, st) # ys))"
      and "\<not> sensor_id e \<or> plain_friendly_name st"
  shows "fst (render_content cfg (xs @ (e, st) # ys)) = fst (render_content cfg (xs @ ys)) \<and>
         (snd (render_content cfg (xs @ (e, st) # ys)) = snd (render_content cfg (xs @ ys)) \<or>
          (\<exists>hdr. snd (render_content cfg (xs @ ys)) = [hdr,
           Div ''placeholder''
             [Text ''No health data available. Set up Health Bridge integration and start receiving data.'']] \<and>
                 snd (render_content cfg (xs @ (e, st) # ys)) = [hdr])) \<and>
         (\<forall>es m u. healthBridgeEntities (xs @ (e, st) # ys) = Inr es \<and>
                   userEntityMap (xs @ (e, st) # ys) es = Inr m \<longrightarrow>
                   e \<notin> set (ids_of m u))"
proof -
  let ?S = "xs @ (e, st) # ys" and ?S' = "xs @ ys"
  from assms(1) have ex: "e \<notin> fst ` set xs"
    by auto
  have own: "get_own ?S e = st"
    using ex by (rule get_own_self)
  have rendered:
    "fst (render_content cfg ?S) = fst (render_content cfg ?S') \<and>
     (snd (render_content cfg ?S) = snd (render_content cfg ?S') \<or>
      (\<exists>hdr. snd (render_content cfg ?S') = [hdr, placeholder] \<and>
             snd (render_content cfg ?S) = [hdr]))"
  proof (cases "get cfg ''title''")
    case (Inl err)
    then show ?thesis
      by (simp add: render_content_def)
  next
    case title: (Inr title)
    show ?thesis
    proof (cases "textContent title")
      case (Inl err)
      with title show ?thesis
        by (simp add: render_content_def)
    next
      case nodes: (Inr title_nodes)
      from excluded_entities [OF assms] consider
        (failed) err where "healthBridgeEntities ?S' = Inl err"
          and "healthBridgeEntities ?S = Inl err"
      | (filtered) a b X where "healthBridgeEntities ?S' = Inr (a @ b)"
          and "healthBridgeEntities ?S = Inr (a @ X @ b)"
          and "e \<notin> set a" and "e \<notin> set b"
          and "X = [] \<or> X = [e] \<and> sensor_id e \<and> has_friendly_paren ?S e = Inr True"
        by blast
      then show ?thesis
      proof cases
        case failed
        with title nodes show ?thesis
          by (simp add: render_content_def)
      next
        case filtered
        note h' = filtered(1) and h = filtered(2) and ea = filtered(3) and eb = filtered(4)
          and X = filtered(5)
        from X assms(2) have l: "plain_friendly_name st \<or> X = []"
          by auto
        from X have X2: "X = [] \<or> X = [e] \<and> has_friendly_paren ?S e = Inr True"
          by auto
        note groups = excluded_groups [OF ex l ea eb X2]
        show ?thesis
        proof (cases "a @ b = []")
          case True
          show ?thesis
          proof (cases "X = []")
            case x: True
            with True title nodes h h' show ?thesis
              by (simp add: render_content_def)
          next
            case False
            with X have "X = [e]"
              by simp
            with True groups have "userEntityMap ?S [e] = Inr []"
              by (simp add: userEntityMap_def)
            with True \<open>X = [e]\<close> title nodes h h' show ?thesis
              by (simp add: render_content_def Object_keys_def)
          qed
        next
          case False
          then have ne: "a @ X @ b \<noteq> []"
            by auto
          note r = render_content_groups [OF title nodes h ne]
          note r' = render_content_groups [OF title nodes h' False]
          show ?thesis
          proof (cases "userEntityMap ?S' (a @ b)")
            case (Inl err)
            with groups show ?thesis
              unfolding r r' by simp
          next
            case (Inr m)
            from ea eb have "e \<notin> set (a @ b)"
              by simp
            from excluded_sections [OF Inr this] Inr groups show ?thesis
              unfolding r r' by simp
          qed
        qed
      qed
    qed
  qed
  have nogroup: "e \<notin> set (ids_of m u)"
    if "healthBridgeEntities ?S = Inr es" and "userEntityMap ?S es = Inr m" for es m u
  proof
    assume "e \<in> set (ids_of m u)"
    with userEntityMap_groups [OF that(2)] have "e \<in> set es" and u: "user_of ?S e = Some u"
      by simp_all
    from healthBridgeEntities_sensor [OF that(1) this(1)] have "sensor_id e" .
    with assms(2) own have "plain_friendly_name (get_own ?S e)"
      by simp
    from plain_friendly_name_dropped(2) [OF this] u show False
      by simp
  qed
  from nogroup
  have "\<forall>es m u. healthBridgeEntities ?S = Inr es \<and> userEntityMap ?S es = Inr m \<longrightarrow>
          e \<notin> set (ids_of m u)"
    by blast
  with rendered show ?thesis
    by (simp add: placeholder_def)
qed

theorem excluded_entity_leaves_no_trace_witness:
  "fst (render_content (Obj [(''title'', Str ''Health'')])
          ([(''sensor.alice_steps'', sensor ''Steps (alice)'' ''1200'' [])] @
           (''sensor.plain_steps'', sensor ''Steps'' ''7'' [(''icon'', Bool True)]) # [])) =
   fst (render_content (Obj [(''title'', Str ''Health'')])
          ([(''sensor.alice_steps'', sensor ''Steps (alice)'' ''1200'' [])] @ [])) \<and>
   (snd (render_content (Obj [(''title'', Str ''Health'')])
          ([(''sensor.alice_steps'', sensor ''Steps (alice)'' ''1200'' [])] @
           (''sensor.plain_steps'', sensor ''Steps'' ''7'' [(''icon'', Bool True)]) # [])) =
    snd (render_content (Obj [(''title'', Str ''Health'')])
          ([(''sensor.alice_steps'', sensor ''Steps (alice)'' ''1200'' [])] @ [])) \<or>
    (\<exists>hdr. snd (render_content (Obj [(''title'', Str ''Health'')])
                 ([(''sensor.alice_steps'', sensor ''Steps (alice)'' ''1200'' [])] @ [])) =
             [hdr,
           Div ''placeholder''
             [Text ''No health data available. Set up Health Bridge integration and start receiving data.'']] \<and>
           snd (render_content (Obj [(''title'', Str ''Health'')])
                 ([(''sensor.alice_steps'', sensor ''Steps (alice)'' ''1200'' [])] @
                  (''sensor.plain_steps'', sensor ''Steps'' ''7'' [(''icon'', Bool True)]) # [])) =
             [hdr])) \<and>
   ''sensor.plain_steps'' \<notin> set (ids_of [(''alice'', [''sensor.alice_steps''])] ''alice'')"
proof -
  let ?xs = "[(''sensor.alice_steps'', sensor ''Steps (alice)'' ''1200'' [])]"
  let ?st = "sensor ''Steps'' ''7'' [(''icon'', Bool True)]"
  have a: "distinct (map fst (?xs @ (''sensor.plain_steps'', ?st) # []))"
    by simp
  have "\<not> ends_in_parenthetical ''Steps''"
    unfolding match_user_None_iff [symmetric] by simp
  then have "plain_friendly_name ?st"
    by (simp add: plain_friendly_name_def friendly_of_def sensor_def get_own_def)
  then have b: "\<not> sensor_id ''sensor.plain_steps'' \<or> plain_friendly_name ?st" ..
  have c: "healthBridgeEntities (?xs @ (''sensor.plain_steps'', ?st) # []) = Inr [''sensor.alice_steps'']"
    by (simp add: eval_defs)
  have d: "userEntityMap (?xs @ (''sensor.plain_steps'', ?st) # []) [''sensor.alice_steps''] =
             Inr [(''alice'', [''sensor.alice_steps''])]"
    by (simp add: eval_defs)
  note t = excluded_entity_leaves_no_trace [OF a b, of "Obj [(''title'', Str ''Health'')]"]
  from t have one: "fst (render_content (Obj [(''title'', Str ''Health'')])
          (?xs @ (''sensor.plain_steps'', ?st) # [])) =
      fst (render_content (Obj [(''title'', Str ''Health'')]) (?xs @ []))"
    by (rule conjunct1)
  from t have two: "snd (render_content (Obj [(''title'', Str ''Health'')])
          (?xs @ (''sensor.plain_steps'', ?st) # [])) =
      snd (render_content (Obj [(''title'', Str ''Health'')]) (?xs @ [])) \<or>
    (\<exists>hdr. snd (render_content (Obj [(''title'', Str ''Health'')]) (?xs @ [])) = [hdr,
           Div ''placeholder''
             [Text ''No health data available. Set up Health Bridge integration and start receiving data.'']] \<and>
           snd (render_content (Obj [(''title'', Str ''Health'')])
                 (?xs @ (''sensor.plain_steps'', ?st) # [])) = [hdr])"
    by (rule conjunct2 [THEN conjunct1])
  from t c d have three:
    "''sensor.plain_steps'' \<notin> set (ids_of [(''alice'', [''sensor.alice_steps''])] ''alice'')"
    by (elim conjE allE [of _ "[''sensor.alice_steps'']"]
          allE [of _ "[(''alice'', [''sensor.alice_steps''])]"] allE [of _ "''alice''"] impE)
       (rule conjI)
  from one two three show ?thesis
    by (intro conjI)
qed

text \<open>
  C3 as stated fails: the friendly name of the second entity below is \<^verbatim>\<open>true\<close>, which has
  no parenthesized suffix. Without that entity the update raises nothing and renders the
  section of \<^verbatim>\<open>alice\<close>; with it the filter throws a TypeError and the header is left alone.
\<close>

theorem non_string_friendly_name_throws:
  "friendly_of (Obj [(''state'', Str ''1''), (''attributes'', Obj [(''friendly_name'', Bool True)])]) =
     Bool True \<and>
   render_content (Obj [(''title'', Str ''Health'')])
     [(''sensor.alice_steps'', sensor ''Steps (alice)'' ''1200'' [])] =
     (None,
      [Div ''header'' [Text ''Health''],
       Div ''user-section''
         [Div ''user-header'' [Text ''User: alice''],
          Div ''metrics-grid''
            [Div ''metric-card''
               [Div ''metric-icon''
                  [Html (''<ha-icon icon='' @ [CHR 0x22] @ ''mdi:help-circle'' @ [CHR 0x22] @
                         ''></ha-icon>'')],
                Div ''metric-value'' [Text ''1200''],
                Div ''metric-name'' [Text ''Steps'']]]]]) \<and>
   render_content (Obj [(''title'', Str ''Health'')])
     [(''sensor.alice_steps'', sensor ''Steps (alice)'' ''1200'' []),
      (''sensor.flag_state'',
       Obj [(''state'', Str ''1''), (''attributes'', Obj [(''friendly_name'', Bool True)])])] =
     (Some TypeError, [Div ''header'' [Text ''Health'']])"
  by (simp add: eval_defs friendly_of_def)

section \<open>A grouping key that names a property of the object prototype\<close>

text \<open>
  With the key \<^verbatim>\<open>constructor\<close> the lookup in the fresh \<^verbatim>\<open>userEntityMap\<close> finds the inherited
  property, no array is created, and the call of \<^verbatim>\<open>push\<close> throws: the update ends with a
  TypeError and the header alone.
\<close>

lemma prototype_key_throws:
  "set_hass [(''sensor.c_steps'', sensor ''Steps (constructor)'' ''1200'' [])] (titled ''Health'') =
     (Some TypeError,
      \<lparr>hass = Some [(''sensor.c_steps'', sensor ''Steps (constructor)'' ''1200'' [])],
       config = Obj [(''title'', Str ''Health'')],
       content = Some [Div ''header'' [Text ''Health'']],
       styles = 1\<rparr>)"
  by (simp add: eval_defs)

section \<open>The placeholder\<close>

lemma filterM_pure:
  "(\<And>x. x \<in> set xs \<Longrightarrow> f x = Inr (p x)) \<Longrightarrow> filterM f xs = Inr (filter p xs)"
  by (induction xs) simp_all

lemma foldM_unchanged:
  "(\<And>s x. x \<in> set xs \<Longrightarrow> f s x = Inr s) \<Longrightarrow> foldM f xs s = Inr s"
  by (induction xs arbitrary: s) simp_all

lemma plain_friendly_name_filter:
  assumes "plain_friendly_name (get_own states k)"
  shows "has_friendly_paren states k = Inr (has_open_paren (get_own states k))"
  using assms
  by (cases "friendly_of (get_own states k)")
     (auto simp: has_friendly_paren_friendly_of plain_friendly_name_def has_open_paren_def)

text \<open>
  C1 (as amended). Take a card whose configured title is a string and a snapshot in which
  the friendly name of every entity with a sensor identifier is missing, falsy or a
  string that does not end in a parenthetical, so that no entity yields a grouping key.
  Then an update raises nothing. When no entity with a sensor identifier has a friendly
  name with an opening parenthesis, the content is the header followed by the one
  placeholder and nothing else. When some such entity has one, the content is the header
  alone: no placeholder, no section, no card.
\<close>

theorem placeholder_when_filter_empty:
  assumes "config w = Obj kvs"
      and "get_own kvs ''title'' = Str t"
      and "\<And>k st. (k, st) \<in> set states \<Longrightarrow> sensor_id k \<Longrightarrow> plain_friendly_name st"
  shows "fst (set_hass states w) = None \<and>
         content (snd (set_hass states w)) =
           Some (if \<exists>k \<in> set (map fst states). sensor_id k \<and> has_open_paren (get_own states k)
                 then [Div ''header'' (if t = [] then [] else [Text t])]
                 else [Div ''header'' (if t = [] then [] else [Text t]),
           Div ''placeholder''
             [Text ''No health data available. Set up Health Bridge integration and start receiving data.'']])"
proof -
  let ?header = "Div ''header'' (if t = [] then [] else [Text t])"
  let ?keys = "filter sensor_id (Object_keys states)"
  let ?es = "filter (\<lambda>k. has_open_paren (get_own states k)) ?keys"
  from assms(1) have tr: "truthy (config w)"
    by simp
  from assms(1,2) have title: "get (config w) ''title'' = Inr (Str t)"
    by simp
  note nodes = textContent_Str [of t]
  have plain: "plain_friendly_name (get_own states k)" if "k \<in> set ?keys" for k
  proof -
    from that have "sensor_id k" and "k \<in> set (map fst states)"
      by (simp_all add: sensor_keys)
    with get_own_in_set [of k states] assms(3) show ?thesis
      by blast
  qed
  have es: "healthBridgeEntities states = Inr ?es"
    unfolding healthBridgeEntities_def
    by (rule filterM_pure) (simp add: plain plain_friendly_name_filter)
  have some: "?es \<noteq> [] \<longleftrightarrow>
      (\<exists>k \<in> set (map fst states). sensor_id k \<and> has_open_paren (get_own states k))"
    by (auto simp: filter_empty_conv sensor_keys)
  have r: "render_content (config w) states =
      (None, if \<exists>k \<in> set (map fst states). sensor_id k \<and> has_open_paren (get_own states k)
             then [?header] else [?header, placeholder])"
  proof (cases "?es = []")
    case True
    with some have "\<not> (\<exists>k \<in> set (map fst states). sensor_id k \<and> has_open_paren (get_own states k))"
      by simp
    moreover from True title nodes es
    have "render_content (config w) states = (None, [?header, placeholder])"
      by (simp add: render_content_def)
    ultimately show ?thesis
      by simp
  next
    case False
    have "group_step states m k = Inr m" if "k \<in> set ?es" for m k
    proof -
      from that have k: "k \<in> set ?keys" and o: "has_open_paren (get_own states k)"
        by simp_all
      from plain_friendly_name_filter [OF plain [OF k]] o
      have "has_friendly_paren states k = Inr True"
        by simp
      with plain [OF k] show ?thesis
        by (rule plain_friendly_name_dropped(3))
    qed
    then have "userEntityMap states ?es = Inr []"
      unfolding userEntityMap_def by (rule foldM_unchanged)
    with render_content_groups [OF title nodes es False]
    have "render_content (config w) states = (None, [?header])"
      by (simp add: Object_keys_def)
    moreover from False some
    have "\<exists>k \<in> set (map fst states). sensor_id k \<and> has_open_paren (get_own states k)"
      by simp
    ultimately show ?thesis
      by simp
  qed
  from r show ?thesis
    by (simp add: set_hass_content [OF tr] set_hass_error [OF tr] placeholder_def)
qed

theorem placeholder_when_filter_empty_witness:
  "fst (set_hass [(''light.kitchen'', sensor ''Kitchen (main)'' ''on'' []),
                  (''sensor.plain_steps'', sensor ''Steps'' ''7'' [])] (titled ''Health'')) = None \<and>
   content (snd (set_hass [(''light.kitchen'', sensor ''Kitchen (main)'' ''on'' []),
                           (''sensor.plain_steps'', sensor ''Steps'' ''7'' [])] (titled ''Health''))) =
     Some [Div ''header'' [Text ''Health''],
           Div ''placeholder''
             [Text ''No health data available. Set up Health Bridge integration and start receiving data.'']] \<and>
   fst (set_hass [(''sensor.a_steps'', sensor ''Steps ('' ''1200'' [])] (titled ''Health'')) = None \<and>
   content (snd (set_hass [(''sensor.a_steps'', sensor ''Steps ('' ''1200'' [])] (titled ''Health''))) =
     Some [Div ''header'' [Text ''Health'']]"
proof -
  let ?S1 = "[(''light.kitchen'', sensor ''Kitchen (main)'' ''on'' []),
              (''sensor.plain_steps'', sensor ''Steps'' ''7'' [])]"
  let ?S2 = "[(''sensor.a_steps'', sensor ''Steps ('' ''1200'' [])]"
  have a: "config (titled ''Health'') = Obj [(''title'', Str ''Health'')]"
    by (simp add: titled_def new_card_def)
  have b: "get_own [(''title'', Str ''Health'')] ''title'' = Str ''Health''"
    by (simp add: get_own_def)
  have n1: "\<not> ends_in_parenthetical ''Steps''"
    unfolding match_user_None_iff [symmetric] by simp
  have n2: "\<not> ends_in_parenthetical ''Steps (''"
    unfolding match_user_None_iff [symmetric] by simp
  have p1: "plain_friendly_name st" if "(k, st) \<in> set ?S1" and "sensor_id k" for k st
  proof -
    have "\<not> sensor_id ''light.kitchen''"
      by (simp add: sensor_id_def startsWith_def)
    moreover from n1 have "plain_friendly_name (sensor ''Steps'' ''7'' [])"
      by (simp add: plain_friendly_name_def friendly_of_def sensor_def get_own_def)
    ultimately show ?thesis
      using that by auto
  qed
  have p2: "plain_friendly_name st" if "(k, st) \<in> set ?S2" and "sensor_id k" for k st
  proof -
    from n2 have "plain_friendly_name (sensor ''Steps ('' ''1200'' [])"
      by (simp add: plain_friendly_name_def friendly_of_def sensor_def get_own_def)
    with that(1) show ?thesis
      by simp
  qed
  have c1: "\<not> (\<exists>k \<in> set (map fst ?S1). sensor_id k \<and> has_open_paren (get_own ?S1 k))"
    by (simp add: sensor_id_def startsWith_def has_open_paren_def friendly_of_def sensor_def
          get_own_def)
  have c2: "\<exists>k \<in> set (map fst ?S2). sensor_id k \<and> has_open_paren (get_own ?S2 k)"
    by (simp add: sensor_id_def startsWith_def has_open_paren_def friendly_of_def sensor_def
          get_own_def)
  have "fst (set_hass ?S1 (titled ''Health'')) = None \<and>
        content (snd (set_hass ?S1 (titled ''Health''))) =
          Some (if \<exists>k \<in> set (map fst ?S1). sensor_id k \<and> has_open_paren (get_own ?S1 k)
                then [Div ''header'' (if ''Health'' = [] then [] else [Text ''Health''])]
                else [Div ''header'' (if ''Health'' = [] then [] else [Text ''Health'']),
           Div ''placeholder''
             [Text ''No health data available. Set up Health Bridge integration and start receiving data.'']])"
    by (rule placeholder_when_filter_empty [OF a b]) (erule (1) p1)
  then have one: "fst (set_hass ?S1 (titled ''Health'')) = None \<and>
             content (snd (set_hass ?S1 (titled ''Health''))) =
               Some [Div ''header'' [Text ''Health''],
           Div ''placeholder''
             [Text ''No health data available. Set up Health Bridge integration and start receiving data.'']]"
    unfolding if_not_P [OF c1] by simp
  have "fst (set_hass ?S2 (titled ''Health'')) = None \<and>
        content (snd (set_hass ?S2 (titled ''Health''))) =
          Some (if \<exists>k \<in> set (map fst ?S2). sensor_id k \<and> has_open_paren (get_own ?S2 k)
                then [Div ''header'' (if ''Health'' = [] then [] else [Text ''Health''])]
                else [Div ''header'' (if ''Health'' = [] then [] else [Text ''Health'']),
           Div ''placeholder''
             [Text ''No health data available. Set up Health Bridge integration and start receiving data.'']])"
    by (rule placeholder_when_filter_empty [OF a b]) (erule (1) p2)
  then have two: "fst (set_hass ?S2 (titled ''Health'')) = None \<and>
             content (snd (set_hass ?S2 (titled ''Health''))) = Some [Div ''header'' [Text ''Health'']]"
    unfolding if_P [OF c2] by simp
  from one two show ?thesis
    by simp
qed

text \<open>
  C1 as stated fails: the one entity below passes the filter (its friendly name contains
  an opening parenthesis) and yields no grouping key, so no group is formed; the content
  is then the header alone, without the placeholder.
\<close>

theorem no_groups_without_placeholder:
  "healthBridgeEntities [(''sensor.a_steps'', sensor ''Steps ('' ''1200'' [])] = Inr [''sensor.a_steps''] \<and>
   userEntityMap [(''sensor.a_steps'', sensor ''Steps ('' ''1200'' [])] [''sensor.a_steps''] = Inr [] \<and>
   set_hass [(''sensor.a_steps'', sensor ''Steps ('' ''1200'' [])] (titled ''Health'') =
     (None, \<lparr>hass = Some [(''sensor.a_steps'', sensor ''Steps ('' ''1200'' [])],
             config = Obj [(''title'', Str ''Health'')],
             content = Some [Div ''header'' [Text ''Health'']],
             styles = 1\<rparr>)"
  by (simp add: eval_defs)

end
